theory Spec2Isabelle
  imports
    Main
    "HOL-Library.Char_ord"
    "HOL-Library.List_Lexorder"
    "HOL-Library.Sublist"
    "HOL-Library.AList"
    "HOL-Library.Multiset"
begin

section \<open>Strings\<close>

text \<open>
  The script \<^verbatim>\<open>scripts/analyze_deps.py\<close> finds source directories, extracts the
  imports of every Python file below them, and writes a dependency report and a snapshot
  of the directory structure. Its functions are modelled below with their names, their
  loops as recursive functions, and what they print as a list of lines returned with the
  result.

  Python strings are modelled as \<^typ>\<open>string\<close> (characters are bytes, so the text is
  ASCII or UTF-8); the order on strings is the lexicographic order on character codes,
  which is what Python's \<^verbatim>\<open>sorted\<close> uses.
\<close>

text \<open>\<^verbatim>\<open>str.replace(old, new)\<close>: every non-overlapping occurrence, left to right.\<close>

function replace :: "string \<Rightarrow> string \<Rightarrow> string \<Rightarrow> string" where
  "replace old new s =
     (if old = [] then new @ concat (map (\<lambda>c. c # new) s)
      else if s = [] then []
      else if prefix old s then new @ replace old new (drop (length old) s)
      else hd s # replace old new (tl s))"
  by pat_completeness auto
termination
  by (relation "measure (\<lambda>(old, new, s). length s)") auto

declare replace.simps [simp del]

text \<open>
  \<^verbatim>\<open>str.split()\<close> with no argument: the maximal runs of non-whitespace characters,
  for the whitespace of ASCII (tab to carriage return, the four separators, the space).
\<close>

definition is_space :: "char \<Rightarrow> bool" where
  "is_space c = (let k = (of_char c :: nat) in (9 \<le> k \<and> k \<le> 13) \<or> (28 \<le> k \<and> k \<le> 32))"

fun split_acc :: "string \<Rightarrow> string \<Rightarrow> string list" where
  "split_acc cur [] = (if cur = [] then [] else [cur])"
| "split_acc cur (c # cs) =
     (if is_space c then (if cur = [] then split_acc [] cs else cur # split_acc [] cs)
      else split_acc (cur @ [c]) cs)"

definition split :: "string \<Rightarrow> string list" where
  "split s = split_acc [] s"

text \<open>\<^verbatim>\<open>sep.join(xs)\<close>\<close>

fun join :: "string \<Rightarrow> string list \<Rightarrow> string" where
  "join sep [] = []"
| "join sep [x] = x"
| "join sep (x # y # ys) = x @ sep @ join sep (y # ys)"

section \<open>Shell-style matching (\<^verbatim>\<open>fnmatch.fnmatch\<close>)\<close>

text \<open>
  The library function the script calls for every pattern test. On POSIX the case
  normalisation is the identity, and the pattern is translated to a regular expression
  that must match the whole name: \<^verbatim>\<open>*\<close> is any string (a \<^verbatim>\<open>/\<close> included),
  \<^verbatim>\<open>?\<close> any character, \<^verbatim>\<open>[...]\<close> a character class (a leading \<^verbatim>\<open>!\<close>
  negates it; an unclosed bracket is a literal). The translation follows the library's
  \<^verbatim>\<open>translate\<close> (CPython 3.9 and later): the tokens below stand for the pieces of
  the regular expression. The patterns the script itself fixes use \<^verbatim>\<open>*\<close> and
  literal characters only.
\<close>

datatype tok = Star | AnyChar | Lit char | CharClass bool "string list" | Never

text \<open>The index of the closing bracket, in the text after an opening one.\<close>

definition bracket_end :: "string \<Rightarrow> nat option" where
  "bracket_end rest =
     (let n = length rest;
          j0 = (if 0 < n \<and> rest ! 0 = CHR ''!'' then 1 else 0);
          j1 = (if j0 < n \<and> rest ! j0 = CHR '']'' then j0 + 1 else j0);
          j = j1 + length (takeWhile (\<lambda>c. c \<noteq> CHR '']'') (drop j1 rest))
      in if j \<ge> n then None else Some j)"

text \<open>\<^verbatim>\<open>stuff.find('-', k)\<close>\<close>

definition find_from :: "char \<Rightarrow> string \<Rightarrow> nat \<Rightarrow> nat option" where
  "find_from c s k =
     (if c \<in> set (drop k s) then Some (k + length (takeWhile (\<lambda>x. x \<noteq> c) (drop k s))) else None)"

lemma length_takeWhile_neq: "c \<in> set xs \<Longrightarrow> length (takeWhile (\<lambda>x. x \<noteq> c) xs) < length xs"
  by (induction xs) auto

lemma find_from_bounds: "find_from c s k = Some k' \<Longrightarrow> k \<le> k' \<and> k' < length s"
proof -
  assume a: "find_from c s k = Some k'"
  then have mem: "c \<in> set (drop k s)" and k': "k' = k + length (takeWhile (\<lambda>x. x \<noteq> c) (drop k s))"
    by (auto simp: find_from_def split: if_splits)
  have "length (takeWhile (\<lambda>x. x \<noteq> c) (drop k s)) < length (drop k s)"
    using mem by (rule length_takeWhile_neq)
  then show ?thesis using k' by simp
qed

text \<open>
  The loop that cuts a class with hyphens into chunks at the hyphens that make a range:
  it returns the chunks found and the start of the last one.
\<close>

function range_loop :: "string \<Rightarrow> nat \<Rightarrow> nat \<Rightarrow> string list \<times> nat" where
  "range_loop stuff i k =
     (case find_from (CHR ''-'') stuff k of
        None \<Rightarrow> ([], i)
      | Some k' \<Rightarrow>
          (let (chunks, i') = range_loop stuff (k' + 1) (k' + 3)
           in (take (k' - i) (drop i stuff) # chunks, i')))"
  by pat_completeness auto
termination
proof (relation "measure (\<lambda>(stuff, i, k). length stuff - k)")
  show "wf (measure (\<lambda>(stuff, i, k). length stuff - k))" by simp
next
  fix stuff :: string and i k x2 :: nat
  assume "find_from (CHR ''-'') stuff k = Some x2"
  then have "k \<le> x2 \<and> x2 < length stuff" by (rule find_from_bounds)
  then have "length stuff - (x2 + 3) < length stuff - k" by arith
  then show "((stuff, x2 + 1, x2 + 3), (stuff, i, k)) \<in> measure (\<lambda>(stuff, i, k). length stuff - k)"
    by simp
qed

declare range_loop.simps [simp del]

text \<open>Empty ranges are removed, from the last chunk to the first.\<close>

fun merge_ranges :: "string list \<Rightarrow> string list" where
  "merge_ranges [] = []"
| "merge_ranges [a] = [a]"
| "merge_ranges (a # b # cs) =
     (case merge_ranges (b # cs) of
        [] \<Rightarrow> [a]
      | b' # cs' \<Rightarrow> if last a > hd b' then (butlast a @ tl b') # cs' else a # b' # cs')"

definition class_chunks :: "string \<Rightarrow> string list" where
  "class_chunks stuff =
     (if CHR ''-'' \<notin> set stuff then [stuff]
      else
        (let (chunks, i) = range_loop stuff 0 (if stuff ! 0 = CHR ''!'' then 2 else 1);
             chunk = drop i stuff;
             chunks' = (if chunk \<noteq> [] then chunks @ [chunk]
                        else butlast chunks @ [last chunks @ ''-''])
         in merge_ranges chunks'))"

definition char_class :: "string \<Rightarrow> tok" where
  "char_class stuff =
     (let chunks = class_chunks stuff; joined = join ''-'' chunks
      in if joined = [] then Never
         else if joined = ''!'' then AnyChar
         else if hd joined = CHR ''!'' then CharClass True (tl (hd chunks) # tl chunks)
         else CharClass False chunks)"

function translate :: "string \<Rightarrow> tok list" where
  "translate [] = []"
| "translate (c # rest) =
     (if c = CHR ''*'' then Star # translate (dropWhile (\<lambda>x. x = CHR ''*'') rest)
      else if c = CHR ''?'' then AnyChar # translate rest
      else if c = CHR ''['' then
        (case bracket_end rest of
           None \<Rightarrow> Lit (CHR ''['') # translate rest
         | Some j \<Rightarrow> char_class (take j rest) # translate (drop (Suc j) rest))
      else Lit c # translate rest)"
  by pat_completeness auto
termination
  by (relation "measure length") (auto simp: less_Suc_eq_le length_dropWhile_le)

declare translate.simps(2) [simp del]

fun in_ranges :: "string list \<Rightarrow> char \<Rightarrow> bool" where
  "in_ranges (a # b # cs) c = ((last a \<le> c \<and> c \<le> hd b) \<or> in_ranges (b # cs) c)"
| "in_ranges _ c = False"

fun tok_ok :: "tok \<Rightarrow> char \<Rightarrow> bool" where
  "tok_ok Star c = True"
| "tok_ok AnyChar c = True"
| "tok_ok (Lit x) c = (x = c)"
| "tok_ok (CharClass neg chunks) c = ((c \<in> set (concat chunks) \<or> in_ranges chunks c) \<noteq> neg)"
| "tok_ok Never c = False"

fun matches :: "tok list \<Rightarrow> string \<Rightarrow> bool" where
  "matches [] s = (s = [])"
| "matches (Star # ts) [] = matches ts []"
| "matches (Star # ts) (c # s) = (matches ts (c # s) \<or> matches (Star # ts) s)"
| "matches (t # ts) [] = False"
| "matches (t # ts) (c # s) = (tok_ok t c \<and> matches ts s)"

definition fnmatch :: "string \<Rightarrow> string \<Rightarrow> bool" where
  "fnmatch name pat = matches (translate pat) name"

section \<open>Paths (\<^verbatim>\<open>pathlib\<close>, POSIX flavour)\<close>

text \<open>
  A path is an anchor (none, \<^verbatim>\<open>/\<close>, or the \<^verbatim>\<open>//\<close> that POSIX keeps apart) and
  its components. Parsing a string drops empty components and \<^verbatim>\<open>.\<close>, and keeps
  \<^verbatim>\<open>..\<close>.
\<close>

datatype anchor = Relative | Root | DoubleRoot

datatype path = PurePath anchor "string list"

fun split_on :: "char \<Rightarrow> string \<Rightarrow> string list" where
  "split_on sep [] = [[]]"
| "split_on sep (c # cs) =
     (if c = sep then [] # split_on sep cs
      else (case split_on sep cs of [] \<Rightarrow> [[c]] | x # xs \<Rightarrow> (c # x) # xs))"

definition Path :: "string \<Rightarrow> path" where
  "Path s =
     (let lead = length (takeWhile (\<lambda>c. c = CHR ''/'') s);
          a = (if lead = 0 then Relative else if lead = 2 then DoubleRoot else Root)
      in PurePath a (filter (\<lambda>x. x \<noteq> [] \<and> x \<noteq> ''.'') (split_on (CHR ''/'') (drop lead s))))"

fun anchor_str :: "anchor \<Rightarrow> string" where
  "anchor_str Relative = []"
| "anchor_str Root = ''/''"
| "anchor_str DoubleRoot = ''//''"

fun str :: "path \<Rightarrow> string" where
  "str (PurePath a ps) = (if a = Relative \<and> ps = [] then ''.'' else anchor_str a @ join ''/'' ps)"

fun name :: "path \<Rightarrow> string" where
  "name (PurePath a ps) = (if ps = [] then [] else last ps)"

text \<open>\<^verbatim>\<open>path.parents\<close>: the nearest ancestor first, the anchor (or \<^verbatim>\<open>.\<close>) last.\<close>

fun parents :: "path \<Rightarrow> path list" where
  "parents (PurePath a ps) = map (\<lambda>k. PurePath a (take k ps)) (rev [0..<length ps])"

text \<open>\<^verbatim>\<open>path / s\<close>: an anchored right operand replaces the left one.\<close>

fun joinpath :: "path \<Rightarrow> string \<Rightarrow> path" where
  "joinpath (PurePath a ps) s =
     (case Path s of PurePath a' ps' \<Rightarrow>
        if a' \<noteq> Relative then PurePath a' ps' else PurePath a (ps @ ps'))"

text \<open>The child path that \<^verbatim>\<open>iterdir\<close> makes from a directory entry's name.\<close>

fun child :: "path \<Rightarrow> string \<Rightarrow> path" where
  "child (PurePath a ps) n = PurePath a (ps @ [n])"

text \<open>\<^verbatim>\<open>path.relative_to(other)\<close>; \<open>None\<close> is the \<^verbatim>\<open>ValueError\<close>.\<close>

fun relative_to :: "path \<Rightarrow> path \<Rightarrow> path option" where
  "relative_to (PurePath a ps) (PurePath b qs) =
     (if a = b \<and> prefix qs ps then Some (PurePath Relative (drop (length qs) ps)) else None)"

section \<open>The file system and the parser, as the script sees them\<close>

text \<open>
  The syntax tree of a source file: the two import statements with the names of their
  targets (\<^verbatim>\<open>alias.name\<close>; the \<^verbatim>\<open>as\<close> name is never read), and any other node
  with its child nodes in the order \<^verbatim>\<open>ast.iter_child_nodes\<close> gives them.
\<close>

datatype ast =
    Import "string list"
  | ImportFrom "string option" "string list"
  | Node "ast list"

datatype oserror = PermissionError | OtherOSError string

text \<open>
  Every call the script makes into the operating system or the parser is a field of the
  world: the tests on a path, the two directory searches (the paths they yield, and the
  message of the exception that ends the search when one is raised), the listing of a
  directory (the names of its entries), and reading and parsing a file (\<open>Inl\<close> the
  message of the exception). Nothing is assumed about these answers, so what is proved
  holds for every file system, symbolic links and special files included.
\<close>

record world =
  is_dir :: "path \<Rightarrow> bool"
  is_file :: "path \<Rightarrow> bool"
  exists :: "path \<Rightarrow> bool"
  glob :: "path \<Rightarrow> string \<Rightarrow> path list \<times> string option"
  rglob :: "path \<Rightarrow> string \<Rightarrow> path list \<times> string option"
  iterdir :: "path \<Rightarrow> oserror + string list"
  parse_file :: "path \<Rightarrow> string + ast"

section \<open>Configuration\<close>

definition DEFAULT_EXCLUDES :: "string list" where
  "DEFAULT_EXCLUDES =
     [''node_modules'', ''.venv'', ''venv'', ''__pycache__'', ''.git'', ''.pytest_cache'',
      ''.coverage'', ''*.egg-info'', ''dist'', ''build'', ''.idea'', ''.vscode'', ''.DS_Store'',
      ''*.pyc'', ''*.pyo'', ''*.pyd'', ''.mypy_cache'', ''.ruff_cache'', ''htmlcov'', ''.env'',
      ''*.log'']"

definition IMPORTANT_FILE_PATTERNS :: "string list" where
  "IMPORTANT_FILE_PATTERNS =
     [''*.py'', ''*.ini'', ''*.toml'', ''*.yaml'', ''*.yml'', ''*.json'', ''*.md'', ''Dockerfile'',
      ''requirements.txt'', ''setup.py'', ''*.lock'']"

fun any_match :: "string \<Rightarrow> string list \<Rightarrow> bool" where
  "any_match s [] = False"
| "any_match s (pattern # rest) = (if fnmatch s pattern then True else any_match s rest)"

definition is_important_file :: "path \<Rightarrow> bool" where
  "is_important_file p = any_match (str p) IMPORTANT_FILE_PATTERNS"

section \<open>Directory discovery\<close>

fun parents_loop :: "path list \<Rightarrow> string \<Rightarrow> bool" where
  "parents_loop [] pattern = False"
| "parents_loop (parent # rest) pattern =
     (if fnmatch (str parent) pattern \<or> fnmatch (name parent) pattern then True
      else parents_loop rest pattern)"

fun skip_loop :: "string \<Rightarrow> path \<Rightarrow> string list \<Rightarrow> bool" where
  "skip_loop path_str p [] = False"
| "skip_loop path_str p (pattern # rest) =
     (if parents_loop (parents p) pattern then True
      else if fnmatch path_str pattern \<or> fnmatch (name p) pattern then True
      else skip_loop path_str p rest)"

definition should_skip_directory :: "string \<Rightarrow> string list \<Rightarrow> bool" where
  "should_skip_directory path_str exclude_patterns =
     skip_loop path_str (Path path_str) exclude_patterns"

text \<open>The text Python prints for a list of strings (exact for names without quotes or escapes).\<close>

definition repr_list :: "string list \<Rightarrow> string" where
  "repr_list xs = ''['' @ join '', '' (map (\<lambda>x. [CHR 0x27] @ x @ [CHR 0x27]) xs) @ '']''"

text \<open>The loop over the paths a glob search yields.\<close>

fun glob_loop :: "world \<Rightarrow> string list \<Rightarrow> path list \<Rightarrow> string set \<Rightarrow> string set" where
  "glob_loop w exclude_patterns [] matching_dirs = matching_dirs"
| "glob_loop w exclude_patterns (p # rest) matching_dirs =
     (if \<not> is_dir w p then glob_loop w exclude_patterns rest matching_dirs
      else if \<not> should_skip_directory (str p) exclude_patterns
        then glob_loop w exclude_patterns rest (insert (str p) matching_dirs)
      else glob_loop w exclude_patterns rest matching_dirs)"

text \<open>The loop over the pattern tokens; the state is the set found and the console.\<close>

fun pattern_loop ::
  "world \<Rightarrow> string list \<Rightarrow> string list \<Rightarrow> string set \<times> string list \<Rightarrow> string set \<times> string list"
where
  "pattern_loop w exclude_patterns [] st = st"
| "pattern_loop w exclude_patterns (pattern # rest) (matching_dirs, out) =
     (let root_path = Path ''.''; direct_path = joinpath root_path pattern
      in if is_dir w direct_path \<and> \<not> should_skip_directory (str direct_path) exclude_patterns
         then pattern_loop w exclude_patterns rest (insert (str direct_path) matching_dirs, out)
         else
           (case glob w root_path pattern of
              (paths, None) \<Rightarrow>
                pattern_loop w exclude_patterns rest
                  (glob_loop w exclude_patterns paths matching_dirs, out)
            | (paths, Some e) \<Rightarrow>
                pattern_loop w exclude_patterns rest
                  (glob_loop w exclude_patterns paths matching_dirs,
                   out @ [''Warning: Error processing pattern '' @ [CHR 0x27] @ pattern
                          @ [CHR 0x27] @ '': '' @ e])))"

definition find_source_directories ::
  "world \<Rightarrow> string \<Rightarrow> string list option \<Rightarrow> string list \<times> string list"
where
  "find_source_directories w search_pattern exclude_patterns_opt =
     (let exclude_patterns = (case exclude_patterns_opt of None \<Rightarrow> [] | Some e \<Rightarrow> e);
          all_excludes = exclude_patterns @ DEFAULT_EXCLUDES;
          patterns = split search_pattern;
          (matching_dirs, out) = pattern_loop w exclude_patterns patterns ({}, [])
      in (sorted_list_of_set matching_dirs,
          out @ (if matching_dirs = {}
                 then [''Warning: No directories found for patterns: '' @ repr_list patterns]
                 else [])))"

subsection \<open>What one pattern token contributes\<close>

definition token_dirs :: "world \<Rightarrow> string list \<Rightarrow> string \<Rightarrow> string set" where
  "token_dirs w ex pattern =
     (let d = joinpath (Path ''.'') pattern
      in if is_dir w d \<and> \<not> should_skip_directory (str d) ex then {str d}
         else {str p | p. p \<in> set (fst (glob w (Path ''.'') pattern)) \<and> is_dir w p
                 \<and> \<not> should_skip_directory (str p) ex})"

lemma glob_loop_set:
  "glob_loop w ex ps S =
     S \<union> {str p | p. p \<in> set ps \<and> is_dir w p \<and> \<not> should_skip_directory (str p) ex}"
  by (induction ps arbitrary: S) auto

lemma pattern_loop_dirs:
  "fst (pattern_loop w ex pats (S, out)) = S \<union> (\<Union>t \<in> set pats. token_dirs w ex t)"
proof (induction pats arbitrary: S out)
  case Nil
  then show ?case by simp
next
  case (Cons t pats)
  show ?case
  proof (cases "is_dir w (joinpath (Path ''.'') t)
                 \<and> \<not> should_skip_directory (str (joinpath (Path ''.'') t)) ex")
    case True
    then show ?thesis
      using Cons.IH [of "insert (str (joinpath (Path ''.'') t)) S" out]
      by (auto simp: token_dirs_def Let_def)
  next
    case False
    obtain paths err where g: "glob w (Path ''.'') t = (paths, err)"
      by (cases "glob w (Path ''.'') t")
    show ?thesis
    proof (cases err)
      case None
      then show ?thesis
        using False g Cons.IH [of "glob_loop w ex paths S" out]
        by (auto simp: token_dirs_def Let_def glob_loop_set)
    next
      case (Some e)
      then show ?thesis
        using False g Cons.IH [of "glob_loop w ex paths S"]
        by (auto simp: token_dirs_def Let_def glob_loop_set)
    qed
  qed
qed

lemma discovery_dirs:
  "fst (find_source_directories w sp exo) =
     sorted_list_of_set
       (\<Union>t \<in> set (split sp). token_dirs w (case exo of None \<Rightarrow> [] | Some e \<Rightarrow> e) t)"
proof -
  let ?ex = "case exo of None \<Rightarrow> [] | Some e \<Rightarrow> e"
  obtain S out where p: "pattern_loop w ?ex (split sp) ({}, []) = (S, out)"
    by (cases "pattern_loop w ?ex (split sp) ({}, [])")
  have "S = (\<Union>t \<in> set (split sp). token_dirs w ?ex t)"
    using pattern_loop_dirs [of w ?ex "split sp" "{}" "[]"] p by simp
  then show ?thesis
    using p by (simp add: find_source_directories_def Let_def)
qed

lemma split_acc_token:
  "\<forall>c \<in> set t. \<not> is_space c \<Longrightarrow> split_acc cur (t @ s) = split_acc (cur @ t) s"
  by (induction t arbitrary: cur) auto

lemma is_space_blank: "is_space (CHR '' '')"
  by (simp add: is_space_def)

lemma split_join:
  "\<forall>t \<in> set ts. t \<noteq> [] \<and> (\<forall>c \<in> set t. \<not> is_space c) \<Longrightarrow> split (join '' '' ts) = ts"
  unfolding split_def
proof (induction ts rule: induct_list012)
  case 1
  then show ?case by simp
next
  case (2 x)
  then show ?case using split_acc_token [of x "[]" "[]"] by simp
next
  case (3 x y ys)
  have "split_acc [] (x @ '' '' @ join '' '' (y # ys)) = split_acc x ('' '' @ join '' '' (y # ys))"
    using "3.prems" split_acc_token [of x "[]"] by simp
  also have "\<dots> = x # split_acc [] (join '' '' (y # ys))"
    using "3.prems" by (simp add: is_space_blank)
  finally show ?case using 3 by simp
qed

subsection \<open>A project tree for the examples\<close>

text \<open>
  A working directory with \<^verbatim>\<open>app/src\<close>, a virtual environment that has a
  \<^verbatim>\<open>src\<close> directory of its own, and \<^verbatim>\<open>node_modules\<close>.
\<close>

definition project_dirs :: "path list" where
  "project_dirs =
     [PurePath Relative [], PurePath Relative [''app''], PurePath Relative [''app'', ''src''],
      PurePath Relative [''.venv''], PurePath Relative [''.venv'', ''lib''],
      PurePath Relative [''.venv'', ''lib'', ''src''], PurePath Relative [''node_modules'']]"

definition project :: world where
  "project =
     \<lparr> is_dir = (\<lambda>p. p \<in> set project_dirs),
       is_file = (\<lambda>p. False),
       exists = (\<lambda>p. p \<in> set project_dirs),
       glob = (\<lambda>root pattern.
         if pattern = ''**/src''
         then ([PurePath Relative [''app'', ''src''], PurePath Relative [''.venv'', ''lib'', ''src'']],
               None)
         else ([], None)),
       rglob = (\<lambda>root pattern. ([], None)),
       iterdir = (\<lambda>p.
         if p = PurePath Relative [] then Inr [''node_modules'', ''app'', ''.venv'']
         else if p = PurePath Relative [''app''] then Inr [''src'']
         else if p = PurePath Relative [''.venv''] then Inr [''lib'']
         else if p = PurePath Relative [''.venv'', ''lib''] then Inr [''src'']
         else if p \<in> set project_dirs then Inr []
         else Inl (OtherOSError ''No such file or directory'')),
       parse_file = (\<lambda>p. Inl ''No such file or directory'') \<rparr>"

subsection \<open>The default exclude list in discovery\<close>

text \<open>
  C1: discovery applies the caller's exclude patterns merged with the default list, so a
  directory under \<^verbatim>\<open>.venv\<close> or \<^verbatim>\<open>node_modules\<close> is never returned. The
  function builds the merged list and then tests every candidate against the caller's list
  alone: with the default search specification and no caller pattern it returns
  \<^verbatim>\<open>.venv/lib/src\<close> and, asked for it, \<^verbatim>\<open>node_modules\<close>, both of which the merged
  list excludes.
\<close>

theorem discovery_ignores_default_excludes:
  "fst (find_source_directories project ''**/src'' (Some [])) = [''.venv/lib/src'', ''app/src'']
   \<and> fst (find_source_directories project ''node_modules'' (Some [])) = [''node_modules'']
   \<and> should_skip_directory ''.venv/lib/src'' ([] @ DEFAULT_EXCLUDES)
   \<and> should_skip_directory ''node_modules'' ([] @ DEFAULT_EXCLUDES)"
  by code_simp

subsection \<open>Order of the pattern tokens\<close>

text \<open>
  C8: the directories returned do not depend on the order of the space-separated pattern
  tokens: for token lists that are permutations of each other the result is the same list,
  and it is sorted and free of duplicates.
\<close>

theorem discovery_order_independent:
  assumes "mset ts' = mset ts"
    and "\<forall>t \<in> set ts. t \<noteq> [] \<and> (\<forall>c \<in> set t. \<not> is_space c)"
  shows "fst (find_source_directories w (join '' '' ts') ex)
           = fst (find_source_directories w (join '' '' ts) ex)
         \<and> sorted (fst (find_source_directories w (join '' '' ts) ex))
         \<and> distinct (fst (find_source_directories w (join '' '' ts) ex))"
proof -
  have s: "set ts' = set ts"
    using assms(1) by (rule mset_eq_setD)
  then have "\<forall>t \<in> set ts'. t \<noteq> [] \<and> (\<forall>c \<in> set t. \<not> is_space c)"
    using assms(2) by simp
  then have "split (join '' '' ts') = ts'"
    by (rule split_join)
  moreover have "split (join '' '' ts) = ts"
    using assms(2) by (rule split_join)
  ultimately show ?thesis
    using s by (simp add: discovery_dirs)
qed

theorem discovery_order_independent_witness:
  "fst (find_source_directories project ''node_modules **/src'' None)
     = fst (find_source_directories project ''**/src node_modules'' None)
   \<and> fst (find_source_directories project ''**/src node_modules'' None)
       = [''.venv/lib/src'', ''app/src'', ''node_modules'']"
proof -
  have "fst (find_source_directories project (join '' '' [''node_modules'', ''**/src'']) None)
          = fst (find_source_directories project (join '' '' [''**/src'', ''node_modules'']) None)"
    using discovery_order_independent
            [of "[''node_modules'', ''**/src'']" "[''**/src'', ''node_modules'']" project None]
    by (simp add: is_space_def)
  moreover have "fst (find_source_directories project ''**/src node_modules'' None)
                   = [''.venv/lib/src'', ''app/src'', ''node_modules'']"
    by code_simp
  ultimately show ?thesis by simp
qed

section \<open>Import extraction\<close>

text \<open>
  \<^verbatim>\<open>ast.walk\<close> keeps a queue: it takes the first node, yields it, and puts the node's
  children at the end of the queue.
\<close>

fun children :: "ast \<Rightarrow> ast list" where
  "children (Node cs) = cs"
| "children _ = []"

lemma sum_list_Suc_size: "sum_list (map (\<lambda>n. Suc (f n)) xs) = sum_list (map f xs) + length xs"
  by (induction xs) auto

function walk :: "ast list \<Rightarrow> ast list" where
  "walk [] = []"
| "walk (n # todo) = n # walk (todo @ children n)"
  by pat_completeness auto
termination
proof (relation "measure (\<lambda>todo. sum_list (map (\<lambda>n. Suc (size n)) todo))")
  show "wf (measure (\<lambda>todo. sum_list (map (\<lambda>n. Suc (size n)) todo)))" by simp
next
  fix n :: ast and todo :: "ast list"
  have "sum_list (map (\<lambda>n. Suc (size n)) (children n)) < Suc (size n)"
    by (cases n) (simp_all add: size_list_conv_sum_list sum_list_Suc_size)
  then show "(todo @ children n, n # todo) \<in> measure (\<lambda>todo. sum_list (map (\<lambda>n. Suc (size n)) todo))"
    by simp
qed

text \<open>The two inner loops over the targets of a statement, and the loop over the nodes.\<close>

fun names_loop :: "string list \<Rightarrow> string list \<Rightarrow> string list" where
  "names_loop [] imports = imports"
| "names_loop (n # rest) imports = names_loop rest (imports @ [n])"

fun from_loop :: "string \<Rightarrow> string list \<Rightarrow> string list \<Rightarrow> string list" where
  "from_loop module [] imports = imports"
| "from_loop module (n # rest) imports =
     (if module \<noteq> [] then from_loop module rest (imports @ [module @ ''.'' @ n])
      else from_loop module rest (imports @ [n]))"

fun node_loop :: "ast list \<Rightarrow> string list \<Rightarrow> string list" where
  "node_loop [] imports = imports"
| "node_loop (Import names # rest) imports = node_loop rest (names_loop names imports)"
| "node_loop (ImportFrom module names # rest) imports =
     node_loop rest (from_loop (case module of None \<Rightarrow> [] | Some m \<Rightarrow> m) names imports)"
| "node_loop (Node cs # rest) imports = node_loop rest imports"

definition find_imports :: "world \<Rightarrow> path \<Rightarrow> string list \<times> string list" where
  "find_imports w file_path =
     (case parse_file w file_path of
        Inl e \<Rightarrow> ([], [''Error parsing '' @ str file_path @ '': '' @ e])
      | Inr tree \<Rightarrow> (node_loop (walk [tree]) [], []))"

text \<open>
  The references of one statement in the words of the specification: every target of a
  plain import as written; for a from-import the module and the symbol joined by a dot
  when the module is not empty, else the symbol alone.
\<close>

fun spec_refs :: "ast \<Rightarrow> string list" where
  "spec_refs (Import names) = names"
| "spec_refs (ImportFrom None names) = names"
| "spec_refs (ImportFrom (Some m) names) = (if m = [] then names else map (\<lambda>x. m @ ''.'' @ x) names)"
| "spec_refs (Node cs) = []"

text \<open>
  Source appearance order: a statement comes before the statements nested in it, and those
  before the statements that follow it.
\<close>

fun preorder :: "ast \<Rightarrow> ast list" where
  "preorder (Node cs) = Node cs # concat (map preorder cs)"
| "preorder n = [n]"

definition source_order_refs :: "ast \<Rightarrow> string list" where
  "source_order_refs tree = concat (map spec_refs (preorder tree))"

text \<open>The nodes at one nesting depth, left to right, and the depth of a tree.\<close>

fun level :: "nat \<Rightarrow> ast list \<Rightarrow> ast list" where
  "level 0 q = q"
| "level (Suc d) q = level d (concat (map children q))"

fun height :: "ast \<Rightarrow> nat" where
  "height (Node cs) = Suc (fold max (map height cs) 0)"
| "height n = 0"

text \<open>Whether an import statement occurs in a tree.\<close>

fun has_import :: "ast \<Rightarrow> bool" where
  "has_import (Node cs) = list_ex has_import cs"
| "has_import n = True"

definition top_level_only :: "ast list \<Rightarrow> bool" where
  "top_level_only body = (\<forall>c \<in> set body. \<forall>g \<in> set (children c). \<not> has_import g)"

section \<open>Directory analysis\<close>

text \<open>
  The two dictionaries of the report, with their keys \<^verbatim>\<open>file\<close>, \<^verbatim>\<open>module\<close>,
  \<^verbatim>\<open>imports\<close> and \<^verbatim>\<open>name\<close>, \<^verbatim>\<open>modules\<close>.
\<close>

record module_info =
  mi_file :: string
  mi_module :: string
  mi_imports :: "string list"

record directory_result =
  dr_name :: string
  dr_modules :: "module_info list"

text \<open>
  The loop over the files the search yields. \<open>Inl\<close> is the message of an exception
  raised in the loop body (a path that is not below the directory).
\<close>

fun files_loop ::
  "world \<Rightarrow> path \<Rightarrow> path list \<Rightarrow> module_info list \<times> string list
     \<Rightarrow> (string + module_info list) \<times> string list"
where
  "files_loop w dir_path [] (all_imports, out) = (Inr all_imports, out)"
| "files_loop w dir_path (python_file # rest) (all_imports, out) =
     (case find_imports w python_file of
        (imports, printed) \<Rightarrow>
          if imports \<noteq> [] then
            (case relative_to python_file dir_path of
               None \<Rightarrow>
                 (Inl ([CHR 0x27] @ str python_file @ [CHR 0x27] @ '' is not in the subpath of ''
                       @ [CHR 0x27] @ str dir_path @ [CHR 0x27]),
                  out @ printed)
             | Some relative_path \<Rightarrow>
                 (let module_path = replace ''.py'' [] (replace ''/'' ''.'' (str relative_path));
                      module_info = \<lparr> mi_file = str relative_path, mi_module = module_path,
                                      mi_imports = imports \<rparr>
                  in files_loop w dir_path rest (all_imports @ [module_info], out @ printed)))
          else files_loop w dir_path rest (all_imports, out @ printed))"

text \<open>
  An exception that ends the search is raised after the files it has yielded have been
  processed; the handler of the function turns every exception into no result.
\<close>

definition analyze_directory :: "world \<Rightarrow> string \<Rightarrow> directory_result option \<times> string list" where
  "analyze_directory w directory =
     (let dir_path = Path directory
      in if \<not> exists w dir_path then (None, [''Directory not found: '' @ directory])
         else
           (case rglob w dir_path ''*.py'' of
              (files, raised) \<Rightarrow>
                (case files_loop w dir_path files ([], []) of
                   (Inl e, out) \<Rightarrow>
                     (None, out @ [''Exception analyzing '' @ directory @ '': '' @ e])
                 | (Inr all_imports, out) \<Rightarrow>
                     (case raised of
                        Some e \<Rightarrow>
                          (None, out @ [''Exception analyzing '' @ directory @ '': '' @ e])
                      | None \<Rightarrow>
                          if all_imports \<noteq> []
                          then (Some \<lparr> dr_name = replace ''/'' ''.'' directory,
                                       dr_modules = all_imports \<rparr>, out)
                          else (None, out)))))"

subsection \<open>A source directory for the examples\<close>

text \<open>
  \<^verbatim>\<open>proj/src\<close> holds \<^verbatim>\<open>app.py\<close> (\<^verbatim>\<open>import os\<close>,
  \<^verbatim>\<open>from proj.util import helper\<close>), \<^verbatim>\<open>tests/pytest_utils.py\<close>
  (\<^verbatim>\<open>import pytest\<close>) and \<^verbatim>\<open>broken.py\<close>, which does not parse.
\<close>

definition src_app :: ast where
  "src_app = Node [Import [''os''], ImportFrom (Some ''proj.util'') [''helper'']]"

definition proj :: world where
  "proj =
     \<lparr> is_dir = (\<lambda>p. p \<in> set [PurePath Relative [''proj''], PurePath Relative [''proj'', ''src''],
                                PurePath Relative [''proj'', ''src'', ''tests'']]),
       is_file = (\<lambda>p. p \<in> set [PurePath Relative [''proj'', ''src'', ''app.py''],
                                 PurePath Relative [''proj'', ''src'', ''broken.py''],
                                 PurePath Relative [''proj'', ''src'', ''tests'', ''pytest_utils.py'']]),
       exists = (\<lambda>p. p \<in> set [PurePath Relative [''proj''], PurePath Relative [''proj'', ''src'']]),
       glob = (\<lambda>root pattern. ([], None)),
       rglob = (\<lambda>root pattern.
         if root = PurePath Relative [''proj'', ''src''] \<and> pattern = ''*.py''
         then ([PurePath Relative [''proj'', ''src'', ''broken.py''],
                PurePath Relative [''proj'', ''src'', ''app.py''],
                PurePath Relative [''proj'', ''src'', ''tests'', ''pytest_utils.py'']], None)
         else ([], None)),
       iterdir = (\<lambda>p. Inr []),
       parse_file = (\<lambda>p.
         if p = PurePath Relative [''proj'', ''src'', ''app.py''] then Inr src_app
         else if p = PurePath Relative [''proj'', ''src'', ''tests'', ''pytest_utils.py'']
           then Inr (Node [Import [''pytest'']])
         else Inl ''invalid syntax (<unknown>, line 1)'') \<rparr>"

text \<open>
  A file with an import nested in a function body before a top-level import:
  \<^verbatim>\<open>def f(): import a\<close>, then \<^verbatim>\<open>import b\<close>; and a file with the three forms of
  import statement.
\<close>

definition nested_example :: ast where
  "nested_example = Node [Node [Import [''a'']], Import [''b'']]"

definition forms_example :: ast where
  "forms_example =
     Node [Import [''a.b''], ImportFrom (Some ''a.b'') [''c''], ImportFrom None [''c'']]"

definition examples :: world where
  "examples =
     \<lparr> is_dir = (\<lambda>p. False), is_file = (\<lambda>p. True), exists = (\<lambda>p. True),
       glob = (\<lambda>root pattern. ([], None)),
       rglob = (\<lambda>root pattern. ([], None)),
       iterdir = (\<lambda>p. Inr []),
       parse_file = (\<lambda>p.
         if p = PurePath Relative [''nested.py''] then Inr nested_example
         else if p = PurePath Relative [''forms.py''] then Inr forms_example
         else Inl ''No such file or directory'') \<rparr>"

subsection \<open>The loops as list functions\<close>

lemma names_loop_eq: "names_loop ns acc = acc @ ns"
  by (induction ns arbitrary: acc) auto

lemma from_loop_eq:
  "from_loop m ns acc = acc @ (if m = [] then ns else map (\<lambda>x. m @ ''.'' @ x) ns)"
  by (induction ns arbitrary: acc) auto

lemma node_loop_eq: "node_loop ns acc = acc @ concat (map spec_refs ns)"
proof (induction ns arbitrary: acc)
  case Nil
  then show ?case by simp
next
  case (Cons n ns)
  show ?case
  proof (cases n)
    case (Import names)
    then show ?thesis using Cons by (simp add: names_loop_eq)
  next
    case (ImportFrom module names)
    then show ?thesis using Cons by (cases module) (simp_all add: from_loop_eq)
  next
    case (Node cs)
    then show ?thesis using Cons by simp
  qed
qed

lemma walk_append: "walk (xs @ ys) = xs @ walk (ys @ concat (map children xs))"
proof (induction xs arbitrary: ys)
  case Nil
  then show ?case by simp
next
  case (Cons x xs)
  have "walk ((x # xs) @ ys) = x # walk (xs @ (ys @ children x))" by simp
  also have "\<dots> = x # xs @ walk ((ys @ children x) @ concat (map children xs))"
    by (simp only: Cons.IH)
  finally show ?case by simp
qed

lemma walk_step: "walk q = q @ walk (concat (map children q))"
  using walk_append [of q "[]"] by simp

lemma walk_levels: "level d q = [] \<Longrightarrow> walk q = concat (map (\<lambda>k. level k q) [0..<d])"
proof (induction d arbitrary: q)
  case 0
  then show ?case by simp
next
  case (Suc d)
  then have "walk (concat (map children q)) = concat (map (\<lambda>k. level k (concat (map children q))) [0..<d])"
    by simp
  then have "walk q = q @ concat (map (\<lambda>k. level (Suc k) q) [0..<d])"
    using walk_step [of q] by simp
  also have "\<dots> = concat (map (\<lambda>k. level k q) (0 # map Suc [0..<d]))"
    by (simp add: comp_def)
  also have "0 # map Suc [0..<d] = [0..<Suc d]"
    by (simp add: map_Suc_upt upt_conv_Cons del: upt_Suc)
  finally show ?case .
qed

lemma fold_max_ge: "(x::nat) \<in> set xs \<Longrightarrow> x \<le> fold max xs a"
proof (induction xs arbitrary: a)
  case Nil
  then show ?case by simp
next
  case (Cons y ys)
  have mono: "\<And>b. b \<le> fold max ys b"
  proof -
    fix b show "b \<le> fold max ys b"
      by (induction ys arbitrary: b) (auto intro: order_trans [OF max.cobounded2])
  qed
  show ?case
  proof (cases "x = y")
    case True
    then show ?thesis using mono [of "max y a"] by simp
  next
    case False
    then show ?thesis using Cons by simp
  qed
qed

lemma height_child: "c \<in> set (children n) \<Longrightarrow> height c < height n"
proof (cases n)
  case (Node cs)
  assume "c \<in> set (children n)"
  then have "height c \<in> set (map height cs)" using Node by simp
  then have "height c \<le> fold max (map height cs) 0" by (rule fold_max_ge)
  then show ?thesis using Node by simp
qed simp_all

lemma level_empty: "\<forall>n \<in> set q. height n < d \<Longrightarrow> level d q = []"
proof (induction d arbitrary: q)
  case 0
  then show ?case by (cases q) auto
next
  case (Suc d)
  have "\<forall>c \<in> set (concat (map children q)). height c < d"
    using Suc.prems height_child by fastforce
  then show ?case using Suc.IH by simp
qed

lemma walk_tree_levels: "walk [t] = concat (map (\<lambda>k. level k [t]) [0..<Suc (height t)])"
  by (rule walk_levels, rule level_empty, simp)

lemma mset_preorder: "mset (preorder n) = {#n#} + mset (concat (map preorder (children n)))"
  by (cases n) simp_all

lemma mset_walk: "mset (walk q) = mset (concat (map preorder q))"
proof (induction q rule: walk.induct)
  case 1
  then show ?case by simp
next
  case (2 n todo)
  then show ?case by (simp add: mset_preorder)
qed

lemma mset_concat_map_cong:
  assumes "mset xs = mset ys"
  shows "mset (concat (map f xs)) = mset (concat (map f ys))"
proof -
  have "\<And>zs. mset (concat (map f zs)) = sum_mset (image_mset (\<lambda>x. mset (f x)) (mset zs))"
    by (induct_tac zs) simp_all
  then show ?thesis using assms by simp
qed

lemma refs_import_free: "\<not> has_import n \<Longrightarrow> concat (map spec_refs (preorder n)) = []"
proof (induction n)
  case (Node cs)
  then have "\<forall>c \<in> set cs. concat (map spec_refs (preorder c)) = []"
    by (auto simp: list_ex_iff)
  then show ?case by (induction cs) auto
qed simp_all

lemma refs_preorder_forest:
  "\<forall>n \<in> set q. \<not> has_import n \<Longrightarrow> concat (map spec_refs (concat (map preorder q))) = []"
  by (induction q) (auto simp: refs_import_free)

lemma refs_walk_import_free:
  assumes "\<forall>n \<in> set q. \<not> has_import n"
  shows "concat (map spec_refs (walk q)) = []"
proof -
  have "mset (concat (map spec_refs (walk q))) = mset (concat (map spec_refs (concat (map preorder q))))"
    by (rule mset_concat_map_cong) (rule mset_walk)
  then show ?thesis using assms by (simp add: refs_preorder_forest)
qed

lemma refs_top_level_stmt:
  "\<forall>g \<in> set (children c). \<not> has_import g \<Longrightarrow> concat (map spec_refs (preorder c)) = spec_refs c"
  by (cases c) (simp_all add: refs_preorder_forest)

lemma refs_preorder_top_level:
  "top_level_only body \<Longrightarrow>
   concat (map spec_refs (preorder (Node body))) = concat (map spec_refs body)"
  unfolding top_level_only_def
  by (induction body) (simp_all add: refs_top_level_stmt)

lemma refs_walk_top_level:
  assumes "top_level_only body"
  shows "concat (map spec_refs (walk [Node body])) = concat (map spec_refs body)"
proof -
  have "walk [Node body] = Node body # body @ walk (concat (map children body))"
    using walk_step [of body] by simp
  moreover have "concat (map spec_refs (walk (concat (map children body)))) = []"
    using assms by (intro refs_walk_import_free) (auto simp: top_level_only_def)
  ultimately show ?thesis by simp
qed

lemma concat_map_concat_map:
  "concat (map f (concat (map g ks))) = concat (map (\<lambda>k. concat (map f (g k))) ks)"
  by (induction ks) auto

lemma find_imports_parsed:
  "parse_file w p = Inr tree \<Longrightarrow> fst (find_imports w p) = concat (map spec_refs (walk [tree]))"
  by (simp add: find_imports_def node_loop_eq)

subsection \<open>What the extractor returns\<close>

text \<open>
  C5: for a file that parses, the extractor returns, for every statement that the walk
  visits, the references the specification names: each target of a plain import as written,
  and for a from-import the module and the symbol joined by a dot, or the symbol alone when
  the module is empty.
\<close>

theorem find_imports_refs:
  assumes "parse_file w p = Inr tree"
  shows "fst (find_imports w p) = concat (map spec_refs (walk [tree]))
       \<and> set (fst (find_imports w p)) = (\<Union>n \<in> set (preorder tree). set (spec_refs n))"
proof -
  have eq: "fst (find_imports w p) = concat (map spec_refs (walk [tree]))"
    using assms by (rule find_imports_parsed)
  have "mset (walk [tree]) = mset (preorder tree)"
    using mset_walk [of "[tree]"] by simp
  then have nodes: "set (walk [tree]) = set (preorder tree)"
    by (rule mset_eq_setD)
  have "\<And>xs. set (concat (map spec_refs xs)) = (\<Union>n \<in> set xs. set (spec_refs n))"
    by simp
  then have "set (concat (map spec_refs (walk [tree]))) = (\<Union>n \<in> set (preorder tree). set (spec_refs n))"
    by (simp only: nodes)
  then show ?thesis
    using eq by (simp only: simp_thms)
qed

theorem find_imports_refs_witness:
  "parse_file examples (PurePath Relative [''forms.py'']) = Inr forms_example
   \<and> fst (find_imports examples (PurePath Relative [''forms.py''])) = [''a.b'', ''a.b.c'', ''c'']"
proof -
  have h: "parse_file examples (PurePath Relative [''forms.py'']) = Inr forms_example"
    by (simp add: examples_def)
  have "concat (map spec_refs (walk [forms_example])) = [''a.b'', ''a.b.c'', ''c'']"
    by (simp add: forms_example_def)
  then show ?thesis
    using h find_imports_refs [OF h] by simp
qed

subsection \<open>The order of the references\<close>

text \<open>
  C3 as stated: the references are listed in source appearance order, nested import
  statements included. The walk is breadth-first, so a top-level import comes before an
  import nested in an earlier function body.
\<close>

theorem imports_not_in_source_order:
  "parse_file examples (PurePath Relative [''nested.py'']) = Inr nested_example
   \<and> fst (find_imports examples (PurePath Relative [''nested.py''])) = [''b'', ''a'']
   \<and> source_order_refs nested_example = [''a'', ''b'']"
  by (simp add: examples_def find_imports_def nested_example_def source_order_refs_def)

text \<open>
  C3 as amended: the references keep their duplicates (they are a permutation of the
  references in source order) and are listed by nesting depth, in source order within one
  depth; when every import statement is a top-level statement of the module this is source
  appearance order.
\<close>

theorem imports_level_order:
  assumes "parse_file w p = Inr tree"
  shows "mset (fst (find_imports w p)) = mset (source_order_refs tree)
       \<and> fst (find_imports w p)
           = concat (map (\<lambda>k. concat (map spec_refs (level k [tree]))) [0..<Suc (height tree)])
       \<and> (\<forall>body. tree = Node body \<and> top_level_only body \<longrightarrow>
             fst (find_imports w p) = source_order_refs tree)"
proof -
  have r: "fst (find_imports w p) = concat (map spec_refs (walk [tree]))"
    using assms by (rule find_imports_parsed)
  have "mset (walk [tree]) = mset (preorder tree)"
    using mset_walk [of "[tree]"] by simp
  then have a: "mset (fst (find_imports w p)) = mset (source_order_refs tree)"
    unfolding r source_order_refs_def by (rule mset_concat_map_cong)
  have b: "fst (find_imports w p)
           = concat (map (\<lambda>k. concat (map spec_refs (level k [tree]))) [0..<Suc (height tree)])"
    unfolding r walk_tree_levels [of tree]
    by (rule concat_map_concat_map)
  have c: "\<forall>body. tree = Node body \<and> top_level_only body \<longrightarrow>
             fst (find_imports w p) = source_order_refs tree"
    unfolding r source_order_refs_def
    by (auto simp only: refs_walk_top_level refs_preorder_top_level)
  show ?thesis using a b c by simp
qed

theorem imports_level_order_witness:
  "parse_file proj (PurePath Relative [''proj'', ''src'', ''app.py'']) = Inr src_app
   \<and> top_level_only [Import [''os''], ImportFrom (Some ''proj.util'') [''helper'']]
   \<and> fst (find_imports proj (PurePath Relative [''proj'', ''src'', ''app.py'']))
       = source_order_refs src_app
   \<and> source_order_refs src_app = [''os'', ''proj.util.helper'']"
proof -
  have h: "parse_file proj (PurePath Relative [''proj'', ''src'', ''app.py'']) = Inr src_app"
    by (simp add: proj_def)
  have t: "top_level_only [Import [''os''], ImportFrom (Some ''proj.util'') [''helper'']]"
    by (simp add: top_level_only_def)
  have "fst (find_imports proj (PurePath Relative [''proj'', ''src'', ''app.py'']))
          = source_order_refs src_app"
    using imports_level_order [OF h] t unfolding src_app_def by blast
  moreover have "source_order_refs src_app = [''os'', ''proj.util.helper'']"
    by (simp add: source_order_refs_def src_app_def)
  ultimately show ?thesis using h t by simp
qed

subsection \<open>A file that does not parse\<close>

lemma files_loop_out:
  "fst (files_loop w d fs (acc, out)) = fst (files_loop w d fs (acc, out'))"
proof (induction fs arbitrary: acc out out')
  case Nil
  then show ?case by simp
next
  case (Cons f fs)
  show ?case
    by (cases "find_imports w f") (auto simp: Let_def Cons.IH split: option.splits)
qed

text \<open>
  C9: when reading or parsing a file raises, the extractor prints the failure with the path
  and the message and returns no import; the loop over the files goes on with the next
  file, and the modules collected are those collected without the file.
\<close>

theorem parse_failure_skipped:
  assumes "parse_file w f = Inl e"
  shows "find_imports w f = ([], [''Error parsing '' @ str f @ '': '' @ e])
       \<and> files_loop w dir_path (f # rest) (acc, out)
           = files_loop w dir_path rest (acc, out @ [''Error parsing '' @ str f @ '': '' @ e])
       \<and> fst (files_loop w dir_path (before @ f # rest) (acc, out))
           = fst (files_loop w dir_path (before @ rest) (acc, out))"
proof -
  have fi: "find_imports w f = ([], [''Error parsing '' @ str f @ '': '' @ e])"
    using assms by (simp add: find_imports_def)
  have step: "\<And>acc out. files_loop w dir_path (f # rest) (acc, out)
           = files_loop w dir_path rest (acc, out @ [''Error parsing '' @ str f @ '': '' @ e])"
    using fi by simp
  have "fst (files_loop w dir_path (before @ f # rest) (acc, out))
           = fst (files_loop w dir_path (before @ rest) (acc, out))"
  proof (induction before arbitrary: acc out)
    case Nil
    show ?case using step files_loop_out [of w dir_path rest acc] by simp
  next
    case (Cons b before)
    show ?case
      by (cases "find_imports w b") (auto simp: Let_def Cons.IH split: option.splits)
  qed
  then show ?thesis using fi step by simp
qed

theorem parse_failure_skipped_witness:
  "parse_file proj (PurePath Relative [''proj'', ''src'', ''broken.py''])
     = Inl ''invalid syntax (<unknown>, line 1)''
   \<and> find_imports proj (PurePath Relative [''proj'', ''src'', ''broken.py''])
       = ([], [''Error parsing proj/src/broken.py: invalid syntax (<unknown>, line 1)''])"
proof -
  have h: "parse_file proj (PurePath Relative [''proj'', ''src'', ''broken.py''])
             = Inl ''invalid syntax (<unknown>, line 1)''"
    by (simp add: proj_def)
  show ?thesis
    using h parse_failure_skipped [OF h] by simp
qed

subsection \<open>The result of analysing a directory\<close>

lemma files_loop_quiet:
  "\<forall>f \<in> set fs. fst (find_imports w f) = [] \<Longrightarrow> fst (files_loop w d fs (acc, out)) = Inr acc"
proof (induction fs arbitrary: out)
  case Nil
  then show ?case by simp
next
  case (Cons f fs)
  then show ?case by (cases "find_imports w f") auto
qed

lemma files_loop_ok:
  "\<forall>f \<in> set fs. relative_to f d \<noteq> None \<Longrightarrow>
   \<exists>ms. fst (files_loop w d fs (acc, out)) = Inr (acc @ ms)
        \<and> (ms \<noteq> [] \<longleftrightarrow> (\<exists>f \<in> set fs. fst (find_imports w f) \<noteq> []))"
proof (induction fs arbitrary: acc out)
  case Nil
  then show ?case by simp
next
  case (Cons f fs)
  obtain imps printed where fi: "find_imports w f = (imps, printed)"
    by (cases "find_imports w f")
  obtain rel where rel: "relative_to f d = Some rel"
    using Cons.prems by auto
  show ?case
  proof (cases "imps = []")
    case True
    obtain ms where "fst (files_loop w d fs (acc, out @ printed)) = Inr (acc @ ms)"
      and "ms \<noteq> [] \<longleftrightarrow> (\<exists>f \<in> set fs. fst (find_imports w f) \<noteq> [])"
      using Cons.IH [of acc "out @ printed"] Cons.prems by auto
    then show ?thesis using True fi by auto
  next
    case False
    let ?m = "\<lparr> mi_file = str rel,
                mi_module = replace ''.py'' [] (replace ''/'' ''.'' (str rel)),
                mi_imports = imps \<rparr>"
    obtain ms where "fst (files_loop w d fs (acc @ [?m], out @ printed)) = Inr ((acc @ [?m]) @ ms)"
      using Cons.IH [of "acc @ [?m]" "out @ printed"] Cons.prems by auto
    then have "fst (files_loop w d (f # fs) (acc, out)) = Inr (acc @ (?m # ms))"
      using False fi rel by (simp add: Let_def)
    then show ?thesis using False fi by (intro exI [of _ "?m # ms"]) auto
  qed
qed

text \<open>
  C6: the analyzer returns nothing when the directory does not exist or when no file
  yields an import; a result it returns is named by the directory path with the
  separators replaced by dots and has a module; and when the search over the directory
  ends without an exception, it returns a result exactly when a file yields an import.
\<close>

theorem analyze_directory_result:
  assumes "rglob w (Path d) ''*.py'' = (files, raised)"
  shows "(\<not> exists w (Path d) \<longrightarrow> fst (analyze_directory w d) = None)
       \<and> ((\<forall>f \<in> set files. fst (find_imports w f) = []) \<longrightarrow> fst (analyze_directory w d) = None)
       \<and> (\<forall>r. fst (analyze_directory w d) = Some r \<longrightarrow>
              dr_name r = replace ''/'' ''.'' d \<and> dr_modules r \<noteq> [])
       \<and> (exists w (Path d) \<and> raised = None \<and> (\<forall>f \<in> set files. relative_to f (Path d) \<noteq> None) \<longrightarrow>
            (fst (analyze_directory w d) \<noteq> None
               \<longleftrightarrow> (\<exists>f \<in> set files. fst (find_imports w f) \<noteq> [])))"
proof -
  have p1: "\<not> exists w (Path d) \<longrightarrow> fst (analyze_directory w d) = None"
    by (simp add: analyze_directory_def Let_def)
  have p2: "(\<forall>f \<in> set files. fst (find_imports w f) = []) \<longrightarrow> fst (analyze_directory w d) = None"
  proof
    assume q: "\<forall>f \<in> set files. fst (find_imports w f) = []"
    obtain res out where l: "files_loop w (Path d) files ([], []) = (res, out)"
      by (cases "files_loop w (Path d) files ([], [])")
    then have "res = Inr []"
      using files_loop_quiet [OF q, of "Path d" "[]" "[]"] by simp
    then show "fst (analyze_directory w d) = None"
      using assms l by (simp add: analyze_directory_def Let_def split: option.splits)
  qed
  have p3: "\<forall>r. fst (analyze_directory w d) = Some r \<longrightarrow>
              dr_name r = replace ''/'' ''.'' d \<and> dr_modules r \<noteq> []"
    using assms
    by (auto simp: analyze_directory_def Let_def
             split: if_splits prod.splits sum.splits option.splits)
  have p4: "exists w (Path d) \<and> raised = None \<and> (\<forall>f \<in> set files. relative_to f (Path d) \<noteq> None) \<longrightarrow>
            (fst (analyze_directory w d) \<noteq> None
               \<longleftrightarrow> (\<exists>f \<in> set files. fst (find_imports w f) \<noteq> []))"
  proof
    assume a: "exists w (Path d) \<and> raised = None
                 \<and> (\<forall>f \<in> set files. relative_to f (Path d) \<noteq> None)"
    then obtain ms where ms: "fst (files_loop w (Path d) files ([], [])) = Inr ([] @ ms)"
      and iff: "ms \<noteq> [] \<longleftrightarrow> (\<exists>f \<in> set files. fst (find_imports w f) \<noteq> [])"
      using files_loop_ok [of files "Path d" w "[]" "[]"] by blast
    obtain out where "files_loop w (Path d) files ([], []) = (Inr ms, out)"
      using ms by (cases "files_loop w (Path d) files ([], [])") simp
    then have "fst (analyze_directory w d) \<noteq> None \<longleftrightarrow> ms \<noteq> []"
      using a assms by (simp add: analyze_directory_def Let_def)
    then show "fst (analyze_directory w d) \<noteq> None
                 \<longleftrightarrow> (\<exists>f \<in> set files. fst (find_imports w f) \<noteq> [])"
      using iff by simp
  qed
  show ?thesis using p1 p2 p3 p4 by blast
qed

theorem analyze_directory_result_witness:
  "rglob proj (Path ''proj/src'') ''*.py''
     = ([PurePath Relative [''proj'', ''src'', ''broken.py''],
         PurePath Relative [''proj'', ''src'', ''app.py''],
         PurePath Relative [''proj'', ''src'', ''tests'', ''pytest_utils.py'']], None)
   \<and> exists proj (Path ''proj/src'')
   \<and> fst (find_imports proj (PurePath Relative [''proj'', ''src'', ''app.py''])) \<noteq> []
   \<and> fst (analyze_directory proj ''proj/src'') \<noteq> None
   \<and> rglob proj (Path ''proj/nope'') ''*.py'' = ([], None)
   \<and> \<not> exists proj (Path ''proj/nope'')
   \<and> fst (analyze_directory proj ''proj/nope'') = None"
proof -
  let ?files = "[PurePath Relative [''proj'', ''src'', ''broken.py''],
                 PurePath Relative [''proj'', ''src'', ''app.py''],
                 PurePath Relative [''proj'', ''src'', ''tests'', ''pytest_utils.py'']]"
  have p: "Path ''proj/src'' = PurePath Relative [''proj'', ''src'']"
    by code_simp
  have h: "rglob proj (Path ''proj/src'') ''*.py'' = (?files, None)"
    by (simp add: p proj_def)
  have e: "exists proj (Path ''proj/src'')"
    by (simp add: p proj_def)
  have r: "\<forall>f \<in> set ?files. relative_to f (Path ''proj/src'') \<noteq> None"
    by (simp add: p)
  have i: "fst (find_imports proj (PurePath Relative [''proj'', ''src'', ''app.py''])) \<noteq> []"
    by (simp add: find_imports_def proj_def src_app_def)
  then have "\<exists>f \<in> set ?files. fst (find_imports proj f) \<noteq> []"
    by simp
  then have found: "fst (analyze_directory proj ''proj/src'') \<noteq> None"
    using analyze_directory_result [OF h] e r by blast
  have q: "Path ''proj/nope'' = PurePath Relative [''proj'', ''nope'']"
    by code_simp
  have h': "rglob proj (Path ''proj/nope'') ''*.py'' = ([], None)"
    by (simp add: q proj_def)
  have e': "\<not> exists proj (Path ''proj/nope'')"
    by (simp add: q proj_def)
  have "fst (analyze_directory proj ''proj/nope'') = None"
    using analyze_directory_result [OF h'] e' by blast
  then show ?thesis using h e i found h' e' by simp
qed

subsection \<open>The module identifier\<close>

text \<open>
  C4: the module identifier is the relative path with the separators replaced by dots and
  only the trailing \<^verbatim>\<open>.py\<close> removed. The code removes every occurrence of
  \<^verbatim>\<open>.py\<close> after the separators have become dots: for \<^verbatim>\<open>tests/pytest_utils.py\<close>
  the module is \<^verbatim>\<open>teststest_utils\<close>, not \<^verbatim>\<open>tests.pytest_utils\<close>.
\<close>

theorem module_loses_interior_py:
  "fst (analyze_directory proj ''proj/src'') =
     Some \<lparr> dr_name = ''proj.src'',
            dr_modules =
              [\<lparr> mi_file = ''app.py'', mi_module = ''app'',
                  mi_imports = [''os'', ''proj.util.helper''] \<rparr>,
               \<lparr> mi_file = ''tests/pytest_utils.py'', mi_module = ''teststest_utils'',
                  mi_imports = [''pytest''] \<rparr>] \<rparr>
   \<and> replace ''.py'' [] (replace ''/'' ''.'' ''tests/pytest_utils.py'') = ''teststest_utils''"
  by code_simp

section \<open>Structure snapshot\<close>

text \<open>
  The values the snapshot is built from: \<^verbatim>\<open>None\<close>, a string, a list, and a dictionary
  with string keys, which keeps the order in which its keys were first set.
\<close>

datatype pyval = PNone | PStr string | PList "pyval list" | PDict "(string \<times> pyval) list"

text \<open>The exceptions that no handler of the snapshot catches.\<close>

datatype exn = AttributeError string | OSError string

definition should_exclude :: "string list \<Rightarrow> path \<Rightarrow> bool" where
  "should_exclude exclude_patterns p = any_match (str p) exclude_patterns"

text \<open>
  \<^verbatim>\<open>build_tree\<close> and the loop over the sorted children of a directory. The loop
  carries the dictionary built so far and the console; the listing of a directory that
  may not be read prints a warning and gives \<^verbatim>\<open>None\<close>, any other failure of the
  listing is not caught. A file goes to the list under the key \<^verbatim>\<open>files\<close>; when
  that key holds the mapping of a subdirectory named \<^verbatim>\<open>files\<close>, appending to it
  raises.
\<close>

function build_tree ::
    "world \<Rightarrow> string list \<Rightarrow> nat \<Rightarrow> path \<Rightarrow> nat \<Rightarrow> (exn + pyval) \<times> string list"
  and children_loop ::
    "world \<Rightarrow> string list \<Rightarrow> nat \<Rightarrow> nat \<Rightarrow> path list \<Rightarrow> (string \<times> pyval) list \<Rightarrow> string list
       \<Rightarrow> (exn + pyval) \<times> string list"
where
  "build_tree w exclude_patterns max_depth p current_depth =
     (if should_exclude exclude_patterns p then (Inr PNone, [])
      else if is_file w p then
        (if is_important_file p then (Inr (PStr (name p)), []) else (Inr PNone, []))
      else if current_depth \<ge> max_depth then (Inr (PDict []), [])
      else
        (case iterdir w p of
           Inl PermissionError \<Rightarrow> (Inr PNone, [''Warning: Permission denied for '' @ str p])
         | Inl (OtherOSError e) \<Rightarrow> (Inl (OSError e), [])
         | Inr names \<Rightarrow>
             children_loop w exclude_patterns max_depth current_depth
               (map (child p) (sort names)) [] []))"
| "children_loop w exclude_patterns max_depth current_depth [] tree out =
     (Inr (if tree \<noteq> [] then PDict tree else PNone), out)"
| "children_loop w exclude_patterns max_depth current_depth (c # rest) tree out =
     (case build_tree w exclude_patterns max_depth c (current_depth + 1) of
        (Inl e, printed) \<Rightarrow> (Inl e, out @ printed)
      | (Inr child_tree, printed) \<Rightarrow>
          if child_tree \<noteq> PNone then
            (if is_dir w c then
               children_loop w exclude_patterns max_depth current_depth rest
                 (AList.update (name c) child_tree tree) (out @ printed)
             else
               (let tree' = (if map_of tree ''files'' = None
                             then AList.update ''files'' (PList []) tree else tree)
                in case map_of tree' ''files'' of
                     Some (PList files) \<Rightarrow>
                       children_loop w exclude_patterns max_depth current_depth rest
                         (AList.update ''files'' (PList (files @ [child_tree])) tree')
                         (out @ printed)
                   | _ \<Rightarrow>
                       (Inl (AttributeError ([CHR 0x27] @ ''dict'' @ [CHR 0x27] @ '' object has no attribute ''
                                           @ [CHR 0x27] @ ''append'' @ [CHR 0x27])),
                        out @ printed)))
          else children_loop w exclude_patterns max_depth current_depth rest tree (out @ printed))"
  by pat_completeness auto
termination
  by (relation "inv_image (less_than <*lex*> less_than)
        (\<lambda>x. case x of
           Inl (w, ex, md, p, d) \<Rightarrow> (md - d, 0)
         | Inr (w, ex, md, d, cs, tree, out) \<Rightarrow> (md - Suc d, Suc (length cs)))")
     auto

declare build_tree.simps [simp del]

definition generate_project_structure ::
  "world \<Rightarrow> string \<Rightarrow> string list option \<Rightarrow> nat \<Rightarrow> (exn + pyval) \<times> string list"
where
  "generate_project_structure w root_path exclude_patterns_opt max_depth =
     (let exclude_patterns = (case exclude_patterns_opt of None \<Rightarrow> [] | Some e \<Rightarrow> e);
          root = Path root_path
      in case build_tree w exclude_patterns max_depth root 0 of
           (Inl e, out) \<Rightarrow> (Inl e, out)
         | (Inr t, out) \<Rightarrow> (Inr (PDict [(name root, t)]), out))"

text \<open>The strings that occur as values in a snapshot, and how deep its mappings nest.\<close>

fun maxs :: "nat list \<Rightarrow> nat" where
  "maxs [] = 0"
| "maxs (x # xs) = max x (maxs xs)"

fun strings :: "pyval \<Rightarrow> string list" where
  "strings PNone = []"
| "strings (PStr s) = [s]"
| "strings (PList xs) = concat (map strings xs)"
| "strings (PDict es) = concat (map (\<lambda>e. strings (snd e)) es)"

fun nesting :: "pyval \<Rightarrow> nat" where
  "nesting PNone = 0"
| "nesting (PStr s) = 0"
| "nesting (PList xs) = maxs (map nesting xs)"
| "nesting (PDict es) = (if es = [] then 0 else Suc (maxs (map (\<lambda>e. nesting (snd e)) es)))"

section \<open>Entry point\<close>

text \<open>Decimal digits of a number, as \<^verbatim>\<open>str\<close> prints it.\<close>

function str_nat :: "nat \<Rightarrow> string" where
  "str_nat n =
     (if n < 10 then [char_of (48 + n)] else str_nat (n div 10) @ [char_of (48 + n mod 10)])"
  by pat_completeness auto
termination
  by (relation "measure id") auto

declare str_nat.simps [simp del]

text \<open>
  What the entry point changes in the file system before it takes the snapshot: it creates
  the directory of each output file (\<^verbatim>\<open>mkdir(parents=True, exist_ok=True)\<close>) and
  writes the report. A new entry is a directory or a file at its path and a name in the
  listing of its parent; the searches of the world are left as they are. A path is the key
  as written: two spellings of one directory are two keys.
\<close>

fun parent :: "path \<Rightarrow> path" where
  "parent (PurePath a ps) = PurePath a (butlast ps)"

definition add_listing :: "world \<Rightarrow> path \<Rightarrow> world" where
  "add_listing w p =
     w\<lparr> iterdir := (\<lambda>q.
           if q = parent p \<and> q \<noteq> p then
             (case iterdir w q of Inr names \<Rightarrow> Inr (List.insert (name p) names) | Inl e \<Rightarrow> Inl e)
           else iterdir w q) \<rparr>"

definition make_dir :: "world \<Rightarrow> path \<Rightarrow> world" where
  "make_dir w p =
     add_listing
       (w\<lparr> is_dir := (is_dir w)(p := True), is_file := (is_file w)(p := False),
            exists := (exists w)(p := True), iterdir := (iterdir w)(p := Inr []) \<rparr>) p"

definition make_file :: "world \<Rightarrow> path \<Rightarrow> world" where
  "make_file w p =
     add_listing (w\<lparr> is_file := (is_file w)(p := True), exists := (exists w)(p := True) \<rparr>) p"

text \<open>One call of \<^verbatim>\<open>os.mkdir\<close>, and \<^verbatim>\<open>Path.mkdir\<close> as the library defines it.\<close>

datatype mkdir_failure = FileNotFound | FileExists | NotADirectory

definition os_mkdir :: "world \<Rightarrow> path \<Rightarrow> mkdir_failure + world" where
  "os_mkdir w p =
     (if exists w p then Inl FileExists
      else if parent p = p \<or> \<not> exists w (parent p) then Inl FileNotFound
      else if \<not> is_dir w (parent p) then Inl NotADirectory
      else Inr (make_dir w p))"

lemma parent_shorter: "parent p \<noteq> p \<Longrightarrow> (case parent p of PurePath a ps \<Rightarrow> length ps) < (case p of PurePath a ps \<Rightarrow> length ps)"
  by (cases p) (auto simp: butlast_conv_take dest!: sym [of "butlast _"] )

function mkdir :: "world \<Rightarrow> path \<Rightarrow> bool \<Rightarrow> bool \<Rightarrow> exn + world" where
  "mkdir w p with_parents exist_ok =
     (case os_mkdir w p of
        Inr w' \<Rightarrow> Inr w'
      | Inl FileNotFound \<Rightarrow>
          if \<not> with_parents \<or> parent p = p
          then Inl (OSError (''No such file or directory: '' @ str p))
          else
            (case mkdir w (parent p) True True of
               Inl e \<Rightarrow> Inl e
             | Inr w' \<Rightarrow> mkdir w' p False exist_ok)
      | Inl failure \<Rightarrow>
          if \<not> exist_ok \<or> \<not> is_dir w p
          then Inl (OSError ((if failure = FileExists then ''File exists: ''
                              else ''Not a directory: '') @ str p))
          else Inr w)"
  by pat_completeness auto
termination
proof (relation "measure (\<lambda>(w, p, with_parents, exist_ok).
                   2 * (case p of PurePath a ps \<Rightarrow> length ps) + (if with_parents then 1 else 0))")
  show "wf (measure (\<lambda>(w, p, with_parents, exist_ok).
                   2 * (case p of PurePath a ps \<Rightarrow> length ps) + (if with_parents then 1 else 0)))"
    by simp
next
  fix w :: world and p :: path and with_parents exist_ok :: bool and x1 :: mkdir_failure
  assume "\<not> (\<not> with_parents \<or> parent p = p)"
  then have "parent p \<noteq> p" and "with_parents" by auto
  then show "((w, parent p, True, True), (w, p, with_parents, exist_ok))
       \<in> measure (\<lambda>(w, p, with_parents, exist_ok).
                   2 * (case p of PurePath a ps \<Rightarrow> length ps) + (if with_parents then 1 else 0))"
    using parent_shorter [of p] by simp
next
  fix w :: world and p :: path and with_parents exist_ok :: bool and x1 :: mkdir_failure and w' :: world
  assume "\<not> (\<not> with_parents \<or> parent p = p)"
  then show "((w', p, False, exist_ok), (w, p, with_parents, exist_ok))
       \<in> measure (\<lambda>(w, p, with_parents, exist_ok).
                   2 * (case p of PurePath a ps \<Rightarrow> length ps) + (if with_parents then 1 else 0))"
    by simp
qed

declare mkdir.simps [simp del]

text \<open>Opening a file for writing creates it; the text written is not read again.\<close>

definition write_file :: "world \<Rightarrow> path \<Rightarrow> exn + world" where
  "write_file w p =
     (if is_dir w p then Inl (OSError (''Is a directory: '' @ str p))
      else if \<not> exists w (parent p) then Inl (OSError (''No such file or directory: '' @ str p))
      else if \<not> is_dir w (parent p) then Inl (OSError (''Not a directory: '' @ str p))
      else Inr (make_file w p))"

text \<open>
  The command-line arguments, the report, and what one run leaves behind: the two
  documents written (if any), the console, and the exception that ended it, if one did.
  The time and the working directory are parameters.
\<close>

record args =
  search_pattern :: string
  output_file :: string
  structure_file :: string
  exclude :: "string list"

record analysis_report =
  analysis_timestamp :: string
  project_root :: string
  modules :: "directory_result list"

record run =
  written_report :: "analysis_report option"
  written_structure :: "pyval option"
  console :: "string list"
  uncaught :: "exn option"

fun directories_loop ::
  "world \<Rightarrow> string list \<Rightarrow> directory_result list \<times> string list
     \<Rightarrow> directory_result list \<times> string list"
where
  "directories_loop w [] st = st"
| "directories_loop w (directory # rest) (all_results, out) =
     (case analyze_directory w directory of
        (Some result, printed) \<Rightarrow>
          directories_loop w rest
            (all_results @ [result],
             out @ [''Analyzing '' @ directory @ ''...''] @ printed
                 @ [''Found dependencies in '' @ directory])
      | (None, printed) \<Rightarrow>
          directories_loop w rest
            (all_results, out @ [''Analyzing '' @ directory @ ''...''] @ printed))"

text \<open>
  The run: discovery in the world it starts in; the directory of the report is created;
  the directories are analysed; the report is written; the directory of the structure file
  is created; the snapshot of \<^verbatim>\<open>.\<close> is taken in the world that now holds the report; the
  snapshot is written. A failure of a creation or of a write is not caught.
\<close>

definition main :: "world \<Rightarrow> args \<Rightarrow> string \<Rightarrow> string \<Rightarrow> run" where
  "main w args now cwd =
     (case find_source_directories w (search_pattern args) (Some (exclude args)) of
        (src_dirs, out0) \<Rightarrow>
          if src_dirs = [] then
            \<lparr> written_report = None, written_structure = None,
              console = out0 @ [''No directories found matching pattern: '' @ search_pattern args],
              uncaught = None \<rparr>
          else
            (let output_path = Path (output_file args)
             in case mkdir w (parent output_path) True True of
                  Inl e \<Rightarrow>
                    \<lparr> written_report = None, written_structure = None, console = out0,
                      uncaught = Some e \<rparr>
                | Inr w1 \<Rightarrow>
                    (case directories_loop w1 src_dirs ([], out0) of
                       (all_results, out1) \<Rightarrow>
                         (let final_results = \<lparr> analysis_timestamp = now, project_root = cwd,
                                                 modules = all_results \<rparr>
                          in case write_file w1 output_path of
                               Inl e \<Rightarrow>
                                 \<lparr> written_report = None, written_structure = None,
                                   console = out1, uncaught = Some e \<rparr>
                             | Inr w2 \<Rightarrow>
                                 (let structure_path = Path (structure_file args)
                                  in case mkdir w2 (parent structure_path) True True of
                                       Inl e \<Rightarrow>
                                         \<lparr> written_report = Some final_results,
                                           written_structure = None, console = out1,
                                           uncaught = Some e \<rparr>
                                     | Inr w3 \<Rightarrow>
                                         (case generate_project_structure w3 ''.''
                                                 (Some (exclude args @ DEFAULT_EXCLUDES)) 3 of
                                            (Inl e, out2) \<Rightarrow>
                                              \<lparr> written_report = Some final_results,
                                                written_structure = None,
                                                console = out1 @ out2, uncaught = Some e \<rparr>
                                          | (Inr project_structure, out2) \<Rightarrow>
                                              (case write_file w3 structure_path of
                                                 Inl e \<Rightarrow>
                                                   \<lparr> written_report = Some final_results,
                                                     written_structure = None,
                                                     console = out1 @ out2, uncaught = Some e \<rparr>
                                               | Inr w4 \<Rightarrow>
                                                   \<lparr> written_report = Some final_results,
                                                     written_structure = Some project_structure,
                                                     console = out1 @ out2 @
                                                       [[CHR 0x0A]
                                                          @ ''Analysis complete. Results written to ''
                                                          @ str output_path,
                                                        ''Project structure written to ''
                                                          @ str structure_path,
                                                        ''Analyzed '' @ str_nat (length all_results)
                                                          @ '' source directories''],
                                                     uncaught = None \<rparr>)))))))"

definition default_args :: args where
  "default_args =
     \<lparr> search_pattern = ''**/src'', output_file = ''analysis_results/pydeps_results.json'',
       structure_file = ''analysis_results/project_structure.json'', exclude = [] \<rparr>"

subsection \<open>A tree with a nested \<^verbatim>\<open>node_modules\<close>\<close>

text \<open>
  \<^verbatim>\<open>pkg/node_modules\<close> holds \<^verbatim>\<open>lib.py\<close> and the directory \<^verbatim>\<open>sub\<close> with
  \<^verbatim>\<open>index.py\<close>.
\<close>

definition nested :: world where
  "nested =
     \<lparr> is_dir = (\<lambda>p. p \<in> set [PurePath Relative [], PurePath Relative [''pkg''],
                                PurePath Relative [''pkg'', ''node_modules''],
                                PurePath Relative [''pkg'', ''node_modules'', ''sub'']]),
       is_file = (\<lambda>p. p \<in> set [PurePath Relative [''pkg'', ''node_modules'', ''lib.py''],
                                 PurePath Relative [''pkg'', ''node_modules'', ''sub'', ''index.py'']]),
       exists = (\<lambda>p. True),
       glob = (\<lambda>root pattern. ([], None)),
       rglob = (\<lambda>root pattern. ([], None)),
       iterdir = (\<lambda>p.
         if p = PurePath Relative [] then Inr [''pkg'']
         else if p = PurePath Relative [''pkg''] then Inr [''node_modules'']
         else if p = PurePath Relative [''pkg'', ''node_modules''] then Inr [''sub'', ''lib.py'']
         else if p = PurePath Relative [''pkg'', ''node_modules'', ''sub''] then Inr [''index.py'']
         else Inl (OtherOSError ''Not a directory'')),
       parse_file = (\<lambda>p. Inl ''No such file or directory'') \<rparr>"

section \<open>Exclusion\<close>

lemma any_match_iff: "any_match s ps \<longleftrightarrow> (\<exists>pat \<in> set ps. fnmatch s pat)"
  by (induction ps) auto

lemma skip_loop_iff:
  "skip_loop s p pats \<longleftrightarrow>
     (\<exists>pat \<in> set pats. (\<exists>a \<in> set (parents p). fnmatch (str a) pat \<or> fnmatch (name a) pat)
                        \<or> fnmatch s pat \<or> fnmatch (name p) pat)"
proof -
  have "\<And>pat as. parents_loop as pat \<longleftrightarrow> (\<exists>a \<in> set as. fnmatch (str a) pat \<or> fnmatch (name a) pat)"
    by (induct_tac as) auto
  then show ?thesis by (induction pats) auto
qed

lemma should_skip_directory_iff:
  "should_skip_directory s pats \<longleftrightarrow>
     (\<exists>pat \<in> set pats.
        fnmatch s pat \<or> fnmatch (name (Path s)) pat
        \<or> (\<exists>a \<in> set (parents (Path s)). fnmatch (str a) pat \<or> fnmatch (name a) pat))"
  unfolding should_skip_directory_def skip_loop_iff by blast

lemma should_exclude_iff: "should_exclude pats p \<longleftrightarrow> (\<exists>pat \<in> set pats. fnmatch (str p) pat)"
  by (simp add: should_exclude_def any_match_iff)

lemma nested_structure:
  "generate_project_structure nested ''.'' (Some ([] @ DEFAULT_EXCLUDES)) 3 =
     (Inr (PDict [([], PDict [(''pkg'', PDict [(''node_modules'',
        PDict [(''files'', PList [PStr ''lib.py'']), (''sub'', PDict [])])])])]), [])"
  by code_simp

text \<open>
  C2: wherever an exclude pattern is applied, in discovery and in the snapshot, a path is
  excluded when its full path, its bare name or an ancestor matches a pattern. Discovery
  tests all of these (\<open>should_skip_directory_iff\<close>); the snapshot tests the full path
  of the node alone (\<open>should_exclude_iff\<close>). With the exclude list the entry point
  passes, the snapshot of the tree above keeps \<^verbatim>\<open>pkg/node_modules\<close>, its file and its
  subdirectory, which discovery would skip.
\<close>

theorem snapshot_keeps_nested_node_modules:
  "fst (generate_project_structure nested ''.'' (Some ([] @ DEFAULT_EXCLUDES)) 3) =
     Inr (PDict [([], PDict [(''pkg'', PDict [(''node_modules'',
        PDict [(''files'', PList [PStr ''lib.py'']), (''sub'', PDict [])])])])])
   \<and> should_skip_directory ''pkg/node_modules/sub'' [''node_modules'']
   \<and> should_skip_directory ''pkg/node_modules'' ([] @ DEFAULT_EXCLUDES)
   \<and> \<not> should_exclude ([] @ DEFAULT_EXCLUDES) (Path ''pkg/node_modules'')
   \<and> \<not> should_exclude [''node_modules''] (Path ''pkg/node_modules/sub'')"
proof -
  have "should_skip_directory ''pkg/node_modules/sub'' [''node_modules'']"
    by code_simp
  moreover have "should_skip_directory ''pkg/node_modules'' ([] @ DEFAULT_EXCLUDES)"
    by code_simp
  moreover have "\<not> should_exclude ([] @ DEFAULT_EXCLUDES) (Path ''pkg/node_modules'')"
    by code_simp
  moreover have "\<not> should_exclude [''node_modules''] (Path ''pkg/node_modules/sub'')"
    by code_simp
  ultimately show ?thesis
    using nested_structure by simp
qed

section \<open>The allow-list and the depth limit\<close>

subsection \<open>Patterns without wildcards inside\<close>

definition special_free :: "string \<Rightarrow> bool" where
  "special_free s = (CHR ''*'' \<notin> set s \<and> CHR ''?'' \<notin> set s \<and> CHR ''['' \<notin> set s)"

lemma translate_plain:
  "c \<noteq> CHR ''*'' \<Longrightarrow> c \<noteq> CHR ''?'' \<Longrightarrow> c \<noteq> CHR ''['' \<Longrightarrow> translate (c # rest) = Lit c # translate rest"
  by (simp add: translate.simps(2))

lemma translate_literal: "special_free lit \<Longrightarrow> translate lit = map Lit lit"
proof (induction lit)
  case Nil
  then show ?case by simp
next
  case (Cons c lit)
  then have "c \<noteq> CHR ''*''" "c \<noteq> CHR ''?''" "c \<noteq> CHR ''[''" "special_free lit"
    by (auto simp: special_free_def)
  then show ?case using Cons.IH by (simp add: translate_plain)
qed

lemma translate_star_literal: "special_free lit \<Longrightarrow> translate (CHR ''*'' # lit) = Star # map Lit lit"
proof -
  assume a: "special_free lit"
  then have "dropWhile (\<lambda>x. x = CHR ''*'') lit = lit"
    by (cases lit) (auto simp: special_free_def)
  then show ?thesis using a by (simp add: translate.simps(2) translate_literal)
qed

lemma matches_literal: "matches (map Lit lit) s \<longleftrightarrow> s = lit"
proof (induction lit arbitrary: s)
  case Nil
  then show ?case by simp
next
  case (Cons c lit)
  then show ?case by (cases s) auto
qed

lemma matches_star_literal: "matches (Star # map Lit lit) s \<longleftrightarrow> suffix lit s"
proof (induction s)
  case Nil
  then show ?case by (auto simp: matches_literal)
next
  case (Cons c s)
  then show ?case by (auto simp: matches_literal suffix_Cons)
qed

lemma fnmatch_literal: "special_free lit \<Longrightarrow> fnmatch s lit \<longleftrightarrow> s = lit"
  by (simp add: fnmatch_def translate_literal matches_literal)

lemma fnmatch_star_literal: "special_free lit \<Longrightarrow> fnmatch s (CHR ''*'' # lit) \<longleftrightarrow> suffix lit s"
  by (simp add: fnmatch_def translate_star_literal matches_star_literal)

lemma join_snoc: "join sep (xs @ [x]) = (if xs = [] then x else join sep xs @ sep @ x)"
  by (induction xs rule: induct_list012) auto

lemma str_last:
  assumes "ps \<noteq> []"
  shows "\<exists>pre. str (PurePath a ps) = pre @ last ps \<and> (pre = [] \<or> last pre = CHR ''/'')"
proof -
  obtain qs x where ps: "ps = qs @ [x]"
    using assms by (metis append_butlast_last_id)
  show ?thesis
  proof (cases "qs = []")
    case True
    then have "str (PurePath a ps) = anchor_str a @ last ps" using ps by simp
    moreover have "anchor_str a = [] \<or> last (anchor_str a) = CHR ''/''" by (cases a) auto
    ultimately show ?thesis by blast
  next
    case False
    then have "str (PurePath a ps) = (anchor_str a @ join ''/'' qs @ ''/'') @ last ps"
      using ps by (simp add: join_snoc)
    moreover have "last (anchor_str a @ join ''/'' qs @ ''/'') = CHR ''/''" by simp
    ultimately show ?thesis by blast
  qed
qed

lemma suffix_after_slash:
  assumes "suffix lit (pre @ x)" and "CHR ''/'' \<notin> set lit" and "pre = [] \<or> last pre = CHR ''/''"
  shows "suffix lit x"
proof (rule ccontr)
  assume n: "\<not> suffix lit x"
  then obtain xs' where l: "lit = xs' @ x" and s: "suffix xs' pre"
    using assms(1) unfolding suffix_append by blast
  have ne: "xs' \<noteq> []"
    using n l by auto
  obtain zs where pre: "pre = zs @ xs'"
    using s unfolding suffix_def by blast
  then have "last pre = last xs'"
    using ne by simp
  moreover have "pre \<noteq> []"
    using pre ne by simp
  ultimately have "last xs' = CHR ''/''"
    using assms(3) by simp
  moreover have "last xs' \<in> set xs'"
    using ne by (rule last_in_set)
  ultimately have "CHR ''/'' \<in> set lit"
    using l by simp
  then show False using assms(2) by simp
qed

lemma suffix_str_name:
  assumes "suffix lit (str p)" and "CHR ''/'' \<notin> set lit" and "2 \<le> length lit"
  shows "suffix lit (name p)"
proof (cases p)
  case (PurePath a ps)
  show ?thesis
  proof (cases "ps = []")
    case True
    then have "str p = ''.'' \<or> str p = ''/'' \<or> str p = ''//''"
      using PurePath by (cases a) auto
    moreover have "\<not> suffix lit ''.''" "\<not> suffix lit ''/''"
      using assms(3) by (auto dest: suffix_length_le)
    moreover have "\<not> suffix lit ''//''"
    proof
      assume "suffix lit ''//''"
      then have "set lit \<subseteq> set ''//''"
        by (rule set_mono_suffix)
      then show False using assms(2,3) by (cases lit) auto
    qed
    ultimately show ?thesis using assms(1) by auto
  next
    case False
    then obtain pre where "str p = pre @ last ps" "pre = [] \<or> last pre = CHR ''/''"
      using str_last PurePath by blast
    then have "suffix lit (last ps)"
      using assms(1,2) suffix_after_slash by metis
    then show ?thesis using False PurePath by simp
  qed
qed

lemma suffix_name_str: "suffix (name p) (str p)"
proof (cases p)
  case (PurePath a ps)
  show ?thesis
  proof (cases "ps = []")
    case True
    then show ?thesis using PurePath by simp
  next
    case False
    then obtain pre where "str (PurePath a ps) = pre @ last ps"
      using str_last by blast
    then show ?thesis using False PurePath by (simp add: suffix_def)
  qed
qed

lemma literal_str_name:
  assumes "str p = lit" and "CHR ''/'' \<notin> set lit" and "2 \<le> length lit"
  shows "name p = lit"
proof -
  have "suffix lit (name p)"
    using assms suffix_str_name [of lit p] by simp
  moreover have "suffix (name p) lit"
    using suffix_name_str [of p] assms(1) by simp
  ultimately show ?thesis by (simp add: suffix_order.antisym)
qed

text \<open>
  Every pattern of the allow-list is a name, or \<^verbatim>\<open>*\<close> and a name, where the name has
  no wildcard and no separator: a path matches it exactly when its last component does.
\<close>

definition plain_name :: "string \<Rightarrow> bool" where
  "plain_name lit = (special_free lit \<and> CHR ''/'' \<notin> set lit \<and> 2 \<le> length lit)"

definition simple_pattern :: "string \<Rightarrow> bool" where
  "simple_pattern pat =
     (case pat of [] \<Rightarrow> False | c # lit \<Rightarrow> if c = CHR ''*'' then plain_name lit else plain_name pat)"

lemma simple_pattern_name:
  assumes "simple_pattern pat" and "fnmatch (str p) pat"
  shows "fnmatch (name p) pat"
proof (cases pat)
  case Nil
  then show ?thesis using assms(1) by (simp add: simple_pattern_def)
next
  case (Cons c lit)
  show ?thesis
  proof (cases "c = CHR ''*''")
    case True
    then have pl: "plain_name lit" using assms(1) Cons by (simp add: simple_pattern_def)
    then have sf: "special_free lit" by (simp add: plain_name_def)
    have "suffix lit (str p)"
      using assms(2) Cons True fnmatch_star_literal [OF sf] by simp
    then have "suffix lit (name p)"
      using pl by (intro suffix_str_name) (simp_all add: plain_name_def)
    then show ?thesis using Cons True fnmatch_star_literal [OF sf] by simp
  next
    case False
    then have pl: "plain_name pat" using assms(1) Cons by (simp add: simple_pattern_def)
    then have sf: "special_free pat" by (simp add: plain_name_def)
    have "str p = pat"
      using assms(2) fnmatch_literal [OF sf] by simp
    then have "name p = pat"
      using pl by (intro literal_str_name) (simp_all add: plain_name_def)
    then show ?thesis using fnmatch_literal [OF sf] by simp
  qed
qed

lemma important_patterns_simple: "list_all simple_pattern IMPORTANT_FILE_PATTERNS"
  by code_simp

lemma important_by_name:
  assumes "is_important_file p"
  shows "\<exists>pat \<in> set IMPORTANT_FILE_PATTERNS. fnmatch (name p) pat"
proof -
  from assms obtain pat where pat: "pat \<in> set IMPORTANT_FILE_PATTERNS" "fnmatch (str p) pat"
    unfolding is_important_file_def any_match_iff by blast
  have "simple_pattern pat"
    using important_patterns_simple pat(1) unfolding list_all_iff by blast
  then have "fnmatch (name p) pat"
    using pat(2) by (rule simple_pattern_name)
  then show ?thesis using pat(1) by blast
qed

subsection \<open>What a snapshot holds\<close>

definition good :: "nat \<Rightarrow> pyval \<Rightarrow> bool" where
  "good k v = ((\<forall>s \<in> set (strings v). \<exists>pat \<in> set IMPORTANT_FILE_PATTERNS. fnmatch s pat) \<and> nesting v \<le> k)"

lemma maxs_le: "maxs xs \<le> k \<longleftrightarrow> (\<forall>x \<in> set xs. x \<le> k)"
  by (induction xs) auto

lemma good_simple: "good k PNone" "good k (PDict [])" "good k (PList [])"
  by (simp_all add: good_def)

lemma good_PList_snoc: "good k (PList xs) \<Longrightarrow> good k x \<Longrightarrow> good k (PList (xs @ [x]))"
  by (auto simp: good_def maxs_le)

lemma good_PDict: "\<forall>e \<in> set tree. good k (snd e) \<Longrightarrow> good (Suc k) (PDict tree)"
  by (auto simp: good_def maxs_le)

lemma update_values:
  "\<forall>e \<in> set tree. G (snd e) \<Longrightarrow> G v \<Longrightarrow> \<forall>e \<in> set (AList.update k v tree). G (snd e)"
  by (induction tree) auto

lemma build_tree_good:
  "build_tree w ex md p d = (Inr v, out) \<Longrightarrow> d \<le> md \<Longrightarrow> good (md - d) v"
  "children_loop w ex md d cs tree out0 = (Inr v', out') \<Longrightarrow> d < md \<Longrightarrow>
     \<forall>e \<in> set tree. good (md - Suc d) (snd e) \<Longrightarrow> good (md - d) v'"
proof (induction w ex md p d and w ex md d cs tree out0 arbitrary: v out and v' out'
       rule: build_tree_children_loop.induct)
  case (1 w ex md p d)
  consider (absent) "v = PNone"
    | (leaf) "v = PStr (name p)" "is_important_file p"
    | (limit) "v = PDict []"
    | (listing) names where "\<not> should_exclude ex p" "\<not> is_file w p" "\<not> md \<le> d"
        "iterdir w p = Inr names"
        "children_loop w ex md d (map (child p) (sort names)) [] [] = (Inr v, out)"
    using "1.prems"(1)
    by (auto simp: build_tree.simps [of w ex md p d] split: if_splits sum.splits oserror.splits)
  then show ?case
  proof cases
    case absent
    then show ?thesis by (simp add: good_simple)
  next
    case leaf
    then show ?thesis using important_by_name [of p] by (simp add: good_def)
  next
    case limit
    then show ?thesis by (simp add: good_simple)
  next
    case listing
    then show ?thesis using "1.IH" [of names v out] by simp
  qed
next
  case (2 w ex md d tree out0)
  have "good (Suc (md - Suc d)) (PDict tree)"
    using "2.prems"(3) by (rule good_PDict)
  moreover have "Suc (md - Suc d) = md - d"
    using "2.prems"(2) by simp
  ultimately show ?case
    using "2.prems"(1) by (auto simp: good_simple split: if_splits)
next
  case (3 w ex md d c rest tree out0)
  obtain child_tree printed where bt: "build_tree w ex md c (d + 1) = (Inr child_tree, printed)"
    using "3.prems"(1) by (cases "build_tree w ex md c (d + 1)") (auto split: sum.splits)
  have gc: "good (md - Suc d) child_tree"
    using "3.IH"(1) [OF bt] "3.prems"(2) by simp
  show ?case
  proof (cases "child_tree = PNone")
    case True
    then show ?thesis
      using "3.IH" bt "3.prems" by auto
  next
    case False
    show ?thesis
    proof (cases "is_dir w c")
      case True
      have "\<forall>e \<in> set (AList.update (name c) child_tree tree). good (md - Suc d) (snd e)"
        using "3.prems"(3) gc by (rule update_values)
      then show ?thesis
        using "3.IH" bt "3.prems" False True by auto
    next
      case nd: False
      define tree' where "tree' = (if map_of tree ''files'' = None
                             then AList.update ''files'' (PList []) tree else tree)"
      have "\<forall>e \<in> set (AList.update ''files'' (PList []) tree). good (md - Suc d) (snd e)"
        using "3.prems"(3) good_simple(3) by (rule update_values)
      then have t': "\<forall>e \<in> set tree'. good (md - Suc d) (snd e)"
        unfolding tree'_def using "3.prems"(3) by simp
      obtain files where f: "map_of tree' ''files'' = Some (PList files)"
        and rest: "children_loop w ex md d rest
                     (AList.update ''files'' (PList (files @ [child_tree])) tree') (out0 @ printed)
                   = (Inr v', out')"
        using "3.prems"(1) bt False nd unfolding tree'_def
        by (auto simp: Let_def split: option.splits pyval.splits if_splits)
      have "good (md - Suc d) (PList files)"
        using t' map_of_SomeD [OF f] by force
      then have "good (md - Suc d) (PList (files @ [child_tree]))"
        using gc by (rule good_PList_snoc)
      then have "\<forall>e \<in> set (AList.update ''files'' (PList (files @ [child_tree])) tree').
                   good (md - Suc d) (snd e)"
        using t' by (intro update_values)
      then show ?thesis
        using "3.IH" bt "3.prems"(2) False nd f rest unfolding tree'_def by auto
    qed
  qed
qed

text \<open>
  C7: every file name in a snapshot matches a pattern of the allow-list; the mapping of
  the root nests at most as deep as the maximum depth; and at or beyond the maximum depth
  a directory that is not excluded is the empty mapping, so that nothing below it is in
  the output.
\<close>

theorem snapshot_allow_list_and_depth:
  assumes "generate_project_structure w root_path ex_opt md = (Inr v, out)"
  shows "(\<forall>s \<in> set (strings v). \<exists>pat \<in> set IMPORTANT_FILE_PATTERNS. fnmatch s pat)
       \<and> (\<exists>t. v = PDict [(name (Path root_path), t)] \<and> nesting t \<le> md)
       \<and> (\<forall>ex p d. md \<le> d \<and> \<not> should_exclude ex p \<and> \<not> is_file w p \<longrightarrow>
             build_tree w ex md p d = (Inr (PDict []), []))"
proof -
  let ?ex = "case ex_opt of None \<Rightarrow> [] | Some e \<Rightarrow> e"
  obtain t where bt: "build_tree w ?ex md (Path root_path) 0 = (Inr t, out)"
    and v: "v = PDict [(name (Path root_path), t)]"
    using assms
    by (auto simp: generate_project_structure_def Let_def split: prod.splits sum.splits)
  have "good (md - 0) t"
    using bt by (rule build_tree_good(1)) simp
  then have "(\<forall>s \<in> set (strings v). \<exists>pat \<in> set IMPORTANT_FILE_PATTERNS. fnmatch s pat)"
    and "nesting t \<le> md"
    using v by (simp_all add: good_def)
  moreover have "\<forall>ex p d. md \<le> d \<and> \<not> should_exclude ex p \<and> \<not> is_file w p \<longrightarrow>
             build_tree w ex md p d = (Inr (PDict []), [])"
    by (simp add: build_tree.simps)
  ultimately show ?thesis using v by blast
qed

theorem snapshot_allow_list_and_depth_witness:
  "generate_project_structure nested ''.'' (Some ([] @ DEFAULT_EXCLUDES)) 3 =
     (Inr (PDict [([], PDict [(''pkg'', PDict [(''node_modules'',
        PDict [(''files'', PList [PStr ''lib.py'']), (''sub'', PDict [])])])])]), [])
   \<and> (\<exists>pat \<in> set IMPORTANT_FILE_PATTERNS. fnmatch ''lib.py'' pat)
   \<and> nesting (PDict [(''pkg'', PDict [(''node_modules'',
        PDict [(''files'', PList [PStr ''lib.py'']), (''sub'', PDict [])])])]) \<le> 3
   \<and> \<not> should_exclude DEFAULT_EXCLUDES (PurePath Relative [''pkg'', ''node_modules'', ''sub''])
   \<and> \<not> is_file nested (PurePath Relative [''pkg'', ''node_modules'', ''sub''])
   \<and> build_tree nested DEFAULT_EXCLUDES 3 (PurePath Relative [''pkg'', ''node_modules'', ''sub'']) 3
       = (Inr (PDict []), [])"
proof -
  have a: "\<not> should_exclude DEFAULT_EXCLUDES (PurePath Relative [''pkg'', ''node_modules'', ''sub''])"
    by code_simp
  have b: "\<not> is_file nested (PurePath Relative [''pkg'', ''node_modules'', ''sub''])"
    by (simp add: nested_def)
  have "build_tree nested DEFAULT_EXCLUDES 3 (PurePath Relative [''pkg'', ''node_modules'', ''sub'']) 3
       = (Inr (PDict []), [])"
    using snapshot_allow_list_and_depth [OF nested_structure] a b by blast
  then show ?thesis
    using snapshot_allow_list_and_depth [OF nested_structure] nested_structure a b by simp
qed

subsection \<open>The key of the root\<close>

text \<open>
  C10: for the root path \<^verbatim>\<open>.\<close>, which is what the entry point passes, the snapshot is
  a mapping with one key, the empty string: the bare name of \<^verbatim>\<open>.\<close> is empty.
\<close>

theorem structure_root_key:
  "name (Path ''.'') = []
   \<and> (\<forall>v out. generate_project_structure w ''.'' ex_opt md = (Inr v, out) \<longrightarrow> (\<exists>t. v = PDict [([], t)]))
   \<and> (\<forall>v. written_structure (main w args now cwd) = Some v \<longrightarrow> (\<exists>t. v = PDict [([], t)]))"
proof -
  have n: "name (Path ''.'') = []"
    by code_simp
  have g: "\<And>w e k v out. generate_project_structure w ''.'' e k = (Inr v, out) \<Longrightarrow> \<exists>t. v = PDict [([], t)]"
    using n by (auto simp: generate_project_structure_def Let_def split: prod.splits sum.splits)
  have "\<forall>v. written_structure (main w args now cwd) = Some v \<longrightarrow> (\<exists>t. v = PDict [([], t)])"
    by (auto simp: main_def Let_def split: prod.splits sum.splits if_splits dest: g)
  then show ?thesis using n g by blast
qed

text \<open>
  The run with the default arguments in the project tree of the examples: the snapshot is
  taken after \<^verbatim>\<open>analysis_results/pydeps_results.json\<close> has been written, and holds it.
\<close>

lemma project_run:
  "written_structure (main project default_args ''2026-01-01T00:00:00+00:00'' ''/work'')
     = Some (PDict [([], PDict [(''analysis_results'',
              PDict [(''files'', PList [PStr ''pydeps_results.json''])])])])"
  by code_simp

theorem structure_root_key_witness:
  "generate_project_structure nested ''.'' (Some ([] @ DEFAULT_EXCLUDES)) 3 =
     (Inr (PDict [([], PDict [(''pkg'', PDict [(''node_modules'',
        PDict [(''files'', PList [PStr ''lib.py'']), (''sub'', PDict [])])])])]), [])
   \<and> (\<exists>t. PDict [([], PDict [(''pkg'', PDict [(''node_modules'',
        PDict [(''files'', PList [PStr ''lib.py'']), (''sub'', PDict [])])])])] = PDict [([], t)])
   \<and> written_structure (main project default_args ''2026-01-01T00:00:00+00:00'' ''/work'')
       = Some (PDict [([], PDict [(''analysis_results'',
                PDict [(''files'', PList [PStr ''pydeps_results.json''])])])])
   \<and> (\<exists>t. PDict [([], PDict [(''analysis_results'',
                PDict [(''files'', PList [PStr ''pydeps_results.json''])])])] = PDict [([], t)])"
  using structure_root_key [of nested "Some ([] @ DEFAULT_EXCLUDES)" 3]
        structure_root_key [of project _ _ default_args "''2026-01-01T00:00:00+00:00''" "''/work''"]
        nested_structure project_run
  by blast

end
